theory Spec2Isabelle
  imports Complex_Main "HOL-Library.AList"
begin

section \<open>JavaScript values used by the gateway\<close>

text \<open>
  JavaScript numbers are modelled as exact reals: every comparison and sum of the source is
  taken in exact arithmetic, and NaN and the infinities are left out. A field that may hold
  \<open>null\<close> (an SQL NULL column, a missing option) is an \<open>option\<close>; where the source
  tells \<open>undefined\<close> from \<open>null\<close> the three-valued \<open>jsval\<close> is used.
  \<open>Date.now()\<close> is a parameter \<open>now\<close> of each public method: one synchronous call
  reads one clock value.
\<close>

datatype 'a jsval = Undefined | Null | Val 'a

text \<open>\<open>x !== undefined && x !== null\<close>\<close>

fun present :: "'a jsval \<Rightarrow> bool" where
  "present (Val _) = True"
| "present _ = False"

text \<open>Truthiness of a nullable number: \<open>null\<close> and \<open>0\<close> are falsy.\<close>

fun truthy :: "real option \<Rightarrow> bool" where
  "truthy None = False"
| "truthy (Some v) = (v \<noteq> 0)"

text \<open>\<open>x || d\<close> on a nullable number.\<close>

definition or_else :: "real option \<Rightarrow> real \<Rightarrow> real" where
  "or_else x d = (if truthy x then the x else d)"

text \<open>\<open>Math.round\<close>: the nearest integer, a tie going up.\<close>

definition Math_round :: "real \<Rightarrow> int" where
  "Math_round x = \<lfloor>x + 1 / 2\<rfloor>"

text \<open>\<open>Math.round(x * 1000) / 1000\<close>, the three-decimal rounding of the router.\<close>

definition round3 :: "real \<Rightarrow> real" where
  "round3 x = real_of_int (Math_round (x * 1000)) / 1000"

text \<open>\<open>s.startsWith(p)\<close>\<close>

definition startsWith :: "string \<Rightarrow> string \<Rightarrow> bool" where
  "startsWith s p = (take (length p) s = p)"

text \<open>White space of \<open>String.prototype.trim\<close>, as far as one-byte characters go.\<close>

definition isSpace :: "char \<Rightarrow> bool" where
  "isSpace c = (c \<in> set [CHR '' '', CHR 0x09, CHR 0x0A, CHR 0x0B, CHR 0x0C, CHR 0x0D])"

definition trim :: "string \<Rightarrow> string" where
  "trim s = rev (dropWhile isSpace (rev (dropWhile isSpace s)))"

section \<open>Tenant manager and auth middleware\<close>

text \<open>
  A row of table \<open>tenants\<close>, with the columns the budget check and the middlewares read.
  \<open>budget_limit_monthly\<close> and \<open>usage_this_month\<close> are nullable REAL columns.
\<close>

record tenant =
  tenant_id :: string
  budget_limit_monthly :: "real option"
  usage_this_month :: "real option"
  rate_limit_rpm :: "real option"
  allowedModels :: "string list option"

text \<open>
  \<open>TenantManager.isWithinBudget\<close>:
  \<^verbatim>\<open>if (!tenant || !tenant.budget_limit_monthly) return true;
return (tenant.usage_this_month || 0) < tenant.budget_limit_monthly;\<close>
\<close>

definition isWithinBudget :: "tenant option \<Rightarrow> bool" where
  "isWithinBudget t =
     (case t of
        None \<Rightarrow> True
      | Some tn \<Rightarrow>
          if \<not> truthy (budget_limit_monthly tn) then True
          else or_else (usage_this_month tn) 0 < the (budget_limit_monthly tn))"

text \<open>The two headers the auth middleware reads; a missing header is \<open>None\<close>.\<close>

record headers =
  authorization :: "string option"
  x_api_key :: "string option"

text \<open>What the middleware does with the request: \<open>next()\<close> with \<open>req.tenant\<close> set, or a
  response with a status and an error code.\<close>

datatype auth_result = Next "tenant option" | Reject nat string

text \<open>The key extraction at the head of \<open>createAuthMiddleware\<close>; an empty string is falsy,
  as \<open>null\<close> is.\<close>

definition extractApiKey :: "headers \<Rightarrow> string option" where
  "extractApiKey h =
     (let apiKey =
        (case authorization h of
           Some a \<Rightarrow> if a \<noteq> [] \<and> startsWith a ''Bearer '' then Some (trim (drop 7 a)) else None
         | None \<Rightarrow> None)
      in if apiKey = None \<or> apiKey = Some []
         then (case x_api_key h of
                 Some k \<Rightarrow> if k \<noteq> [] then Some (trim k) else apiKey
               | None \<Rightarrow> apiKey)
         else apiKey)"

text \<open>
  \<open>createAuthMiddleware(tenantManager)\<close>. \<open>authenticate\<close> is
  \<open>tenantManager.authenticate\<close>: the key's hash looked up in the tenant cache and the
  database.
\<close>

definition createAuthMiddleware :: "(string \<Rightarrow> tenant option) \<Rightarrow> headers \<Rightarrow> auth_result" where
  "createAuthMiddleware authenticate h =
     (case extractApiKey h of
        None \<Rightarrow> Next None
      | Some apiKey \<Rightarrow>
          if apiKey = [] then Next None
          else if startsWith apiKey ''sk-'' \<or> startsWith apiKey ''ant-'' then Next None
          else if startsWith apiKey ''fra_'' then
            (case authenticate apiKey of
               None \<Rightarrow> Reject 401 ''invalid_api_key''
             | Some tn \<Rightarrow>
                 if \<not> isWithinBudget (Some tn) then Reject 429 ''budget_exceeded''
                 else Next (Some tn))
          else Next None)"

text \<open>The number JavaScript compares when \<open>usage_this_month\<close> is \<open>null\<close>: \<open>null >= b\<close>
  compares \<open>0\<close>.\<close>

definition usage_number :: "tenant \<Rightarrow> real" where
  "usage_number tn = (case usage_this_month tn of None \<Rightarrow> 0 | Some u \<Rightarrow> u)"

section \<open>Rate-limit middleware\<close>

text \<open>\<open>class TokenBucket\<close>: \<open>rate\<close> in tokens per second, times in milliseconds.\<close>

record TokenBucket =
  rate :: real
  capacity :: real
  tokens :: real
  lastRefill :: real

definition new_TokenBucket :: "real \<Rightarrow> real \<Rightarrow> real \<Rightarrow> TokenBucket" where
  "new_TokenBucket r c now = \<lparr>rate = r, capacity = c, tokens = c, lastRefill = now\<rparr>"

definition refill :: "real \<Rightarrow> TokenBucket \<Rightarrow> TokenBucket" where
  "refill now b =
     (let elapsed = (now - lastRefill b) / 1000
      in b\<lparr>tokens := min (capacity b) (tokens b + elapsed * rate b), lastRefill := now\<rparr>)"

definition consume :: "real \<Rightarrow> real \<Rightarrow> TokenBucket \<Rightarrow> bool \<times> TokenBucket" where
  "consume now count b =
     (let b1 = refill now b
      in if tokens b1 \<ge> count then (True, b1\<lparr>tokens := tokens b1 - count\<rparr>) else (False, b1))"

definition remaining :: "real \<Rightarrow> TokenBucket \<Rightarrow> int \<times> TokenBucket" where
  "remaining now b = (let b1 = refill now b in (\<lfloor>tokens b1\<rfloor>, b1))"

text \<open>The module's state: the counter \<open>activeRequests\<close> and the registry \<open>buckets\<close>.\<close>

record limiter =
  activeRequests :: int
  buckets :: "string \<rightharpoonup> TokenBucket"

definition MAX_CONCURRENT :: int where
  "MAX_CONCURRENT = 100"

definition getBucket :: "real \<Rightarrow> string \<Rightarrow> real \<Rightarrow> limiter \<Rightarrow> TokenBucket \<times> limiter" where
  "getBucket now tenantId rpmLimit st =
     (case buckets st tenantId of
        None \<Rightarrow>
          (let b = new_TokenBucket (rpmLimit / 60) rpmLimit now
           in (b, st\<lparr>buckets := (buckets st)(tenantId \<mapsto> b)\<rparr>))
      | Some b \<Rightarrow> (b, st))"

text \<open>
  The response object, as far as the middleware touches it. The two arrow functions
  registered with \<open>res.on\<close> are the same closure \<open>() => { activeRequests--; }\<close>, the
  listener \<open>DecrementActive\<close>. \<open>emit_wrapped\<close> says that \<open>res.emit\<close> has been replaced
  by the middleware's function, whose variable is \<open>decremented\<close>.
\<close>

datatype listener = DecrementActive

datatype res_event = Finish | Close | OtherEvent string

record response =
  finish_listeners :: "listener list"
  close_listeners :: "listener list"
  emit_wrapped :: bool
  decremented :: bool
  x_ratelimit :: "(real option \<times> int) option"

definition new_response :: response where
  "new_response =
     \<lparr>finish_listeners = [], close_listeners = [], emit_wrapped = False, decremented = False,
      x_ratelimit = None\<rparr>"

datatype rl_result = RL_Next | RL_Reject nat string

text \<open>The tail of the middleware, from \<open>activeRequests++\<close> to \<open>next()\<close>.\<close>

definition track_active :: "limiter \<Rightarrow> response \<Rightarrow> rl_result \<times> limiter \<times> response" where
  "track_active st res =
     (RL_Next,
      st\<lparr>activeRequests := activeRequests st + 1\<rparr>,
      res\<lparr>finish_listeners := finish_listeners res @ [DecrementActive],
          close_listeners := close_listeners res @ [DecrementActive],
          decremented := False,
          emit_wrapped := True\<rparr>)"

text \<open>The function returned by \<open>createRateLimitMiddleware()\<close>, on a request whose
  \<open>req.tenant\<close> is \<open>tn\<close>.\<close>

definition createRateLimitMiddleware ::
  "real \<Rightarrow> tenant option \<Rightarrow> limiter \<Rightarrow> response \<Rightarrow> rl_result \<times> limiter \<times> response" where
  "createRateLimitMiddleware now tn st res =
     (if activeRequests st \<ge> MAX_CONCURRENT then (RL_Reject 429 ''concurrency_limit'', st, res)
      else
        (case tn of
           None \<Rightarrow> track_active st res
         | Some t \<Rightarrow>
             (let (bucket, st1) = getBucket now (tenant_id t) (or_else (rate_limit_rpm t) 60) st;
                  (ok, bucket1) = consume now 1 bucket;
                  st2 = st1\<lparr>buckets := (buckets st1)(tenant_id t \<mapsto> bucket1)\<rparr>
              in if \<not> ok then (RL_Reject 429 ''rpm_exceeded'', st2, res)
                 else
                   (let (rem, bucket2) = remaining now bucket1;
                        st3 = st2\<lparr>buckets := (buckets st2)(tenant_id t \<mapsto> bucket2)\<rparr>
                    in track_active st3 (res\<lparr>x_ratelimit := Some (rate_limit_rpm t, rem)\<rparr>)))))"

definition run_listener :: "listener \<Rightarrow> limiter \<Rightarrow> limiter" where
  "run_listener l st = (case l of DecrementActive \<Rightarrow> st\<lparr>activeRequests := activeRequests st - 1\<rparr>)"

text \<open>
  \<open>res.emit(event)\<close>. The replaced \<open>emit\<close> sets \<open>decremented\<close> on the first
  \<open>finish\<close> or \<open>close\<close> and then calls the original \<open>emit\<close>, which runs the listeners
  registered for the event, in order.
\<close>

definition emit :: "res_event \<Rightarrow> limiter \<times> response \<Rightarrow> limiter \<times> response" where
  "emit ev sr =
     (let (st, res) = sr;
          res1 = (if emit_wrapped res \<and> (ev = Finish \<or> ev = Close) \<and> \<not> decremented res
                  then res\<lparr>decremented := True\<rparr> else res);
          ls = (case ev of Finish \<Rightarrow> finish_listeners res1
                         | Close \<Rightarrow> close_listeners res1
                         | OtherEvent _ \<Rightarrow> [])
      in (fold run_listener ls st, res1))"

text \<open>A request through the middleware and then the events its response emits; the counter
  afterwards, or \<open>None\<close> when the request was not admitted.\<close>

definition active_after :: "real \<Rightarrow> tenant option \<Rightarrow> limiter \<Rightarrow> res_event list \<Rightarrow> int option" where
  "active_after now tn st evs =
     (case createRateLimitMiddleware now tn st new_response of
        (RL_Next, st1, res1) \<Rightarrow> Some (activeRequests (fst (fold emit evs (st1, res1))))
      | (RL_Reject _ _, _, _) \<Rightarrow> None)"

section \<open>Semantic cache\<close>

text \<open>
  An entry of \<open>exactMatchMap\<close>, and an entry of \<open>embeddingEntries\<close>, which has the same
  fields and \<open>hash\<close> and \<open>embedding\<close> besides. The type \<open>'r\<close> is that of responses.
\<close>

record 'r entry =
  response :: 'r
  model :: string
  timestamp :: real
  hitCount :: nat

record 'r emb_entry = "'r entry" +
  hash :: string
  embedding :: "real list"

record cache_stats =
  totalLookups :: nat
  exactHits :: nat
  semanticHits :: nat
  misses :: nat
  embeddingsComputed :: nat
  embeddingsSkipped :: nat

record cache_options =
  opt_maxSize :: "real option"
  opt_ttlMs :: "real option"
  opt_similarityThreshold :: "real option"
  opt_minEntriesForEmbedding :: "real option"
  opt_minHitRateForEmbedding :: "real option"

definition no_cache_options :: cache_options where
  "no_cache_options =
     \<lparr>opt_maxSize = None, opt_ttlMs = None, opt_similarityThreshold = None,
      opt_minEntriesForEmbedding = None, opt_minHitRateForEmbedding = None\<rparr>"

text \<open>
  The cache. \<open>exactMatchMap\<close> is a JavaScript \<open>Map\<close>: an association list in insertion
  order, read with \<open>map_of\<close>, written with \<open>AList.update\<close> (a key already there keeps its
  place) and \<open>AList.delete\<close>; its \<open>size\<close> is the length of the list.
\<close>

record 'r SemanticCache =
  maxSize :: real
  ttlMs :: real
  similarityThreshold :: real
  minEntriesForEmbedding :: real
  minHitRateForEmbedding :: real
  exactMatchMap :: "(string \<times> 'r entry) list"
  embeddingEntries :: "'r emb_entry list"
  accessOrder :: "string list"
  stats :: cache_stats

definition new_SemanticCache :: "cache_options \<Rightarrow> 'r SemanticCache" where
  "new_SemanticCache options =
     \<lparr>maxSize = or_else (opt_maxSize options) 10000,
      ttlMs = or_else (opt_ttlMs options) 3600000,
      similarityThreshold = or_else (opt_similarityThreshold options) (92 / 100),
      minEntriesForEmbedding = or_else (opt_minEntriesForEmbedding options) 100,
      minHitRateForEmbedding = or_else (opt_minHitRateForEmbedding options) (15 / 100),
      exactMatchMap = [],
      embeddingEntries = [],
      accessOrder = [],
      stats = \<lparr>totalLookups = 0, exactHits = 0, semanticHits = 0, misses = 0,
               embeddingsComputed = 0, embeddingsSkipped = 0\<rparr>\<rparr>"

text \<open>\<open>_shouldUseEmbedding\<close>: the answer, and the cache with \<open>embeddingsSkipped\<close> counted.\<close>

definition shouldUseEmbedding :: "'r SemanticCache \<Rightarrow> bool \<times> 'r SemanticCache" where
  "shouldUseEmbedding c =
     (if real (length (exactMatchMap c)) < minEntriesForEmbedding c then (False, c)
      else
        (let totalHits = exactHits (stats c) + semanticHits (stats c);
             hitRate = (if totalLookups (stats c) > 50
                        then real totalHits / real (totalLookups (stats c)) else 1)
         in if hitRate < minHitRateForEmbedding c
            then (False, c\<lparr>stats := (stats c)\<lparr>embeddingsSkipped := embeddingsSkipped (stats c) + 1\<rparr>\<rparr>)
            else (True, c)))"

text \<open>\<open>_cosineSimilarity\<close> of two arrays.\<close>

definition cosineSimilarity :: "real list \<Rightarrow> real list \<Rightarrow> real" where
  "cosineSimilarity a b =
     (if length a \<noteq> length b then 0
      else
        (let dotProduct = sum_list (map (\<lambda>(x, y). x * y) (zip a b));
             normA = sum_list (map (\<lambda>x. x * x) a);
             normB = sum_list (map (\<lambda>y. y * y) b);
             denom = sqrt normA * sqrt normB
         in if denom = 0 then 0 else dotProduct / denom))"

text \<open>\<open>_touchLRU\<close>: the first occurrence of the hash is spliced out, and the hash pushed.\<close>

definition touchLRU :: "string \<Rightarrow> 'r SemanticCache \<Rightarrow> 'r SemanticCache" where
  "touchLRU h c = c\<lparr>accessOrder := remove1 h (accessOrder c) @ [h]\<rparr>"

text \<open>
  \<open>_evictExpired\<close>: every entry of the map older than the TTL is deleted and its hash
  filtered out of \<open>accessOrder\<close>; the embedding entries are filtered with \<open><=\<close>.
\<close>

definition evictExpired :: "real \<Rightarrow> 'r SemanticCache \<Rightarrow> 'r SemanticCache" where
  "evictExpired now c =
     (let expired = map fst (filter (\<lambda>(h, e). now - timestamp e > ttlMs c) (exactMatchMap c))
      in c\<lparr>exactMatchMap := filter (\<lambda>(h, e). \<not> now - timestamp e > ttlMs c) (exactMatchMap c),
           accessOrder := filter (\<lambda>h. h \<notin> set expired) (accessOrder c),
           embeddingEntries := filter (\<lambda>e. now - timestamp e \<le> ttlMs c) (embeddingEntries c)\<rparr>)"

text \<open>
  The loop of the semantic search over \<open>embeddingEntries\<close>: \<open>(bestSim, bestEntry)\<close>, the
  entry given by its index in the array.
\<close>

fun scanEmbeddings ::
  "real \<Rightarrow> real \<Rightarrow> real list \<Rightarrow> 'r emb_entry list \<Rightarrow> nat \<Rightarrow> real \<times> nat option \<Rightarrow> real \<times> nat option" where
  "scanEmbeddings now ttl q [] i best = best"
| "scanEmbeddings now ttl q (e # es) i best =
     (if now - timestamp e > ttl then scanEmbeddings now ttl q es (Suc i) best
      else
        (let sim = cosineSimilarity q (embedding e)
         in if sim > fst best then scanEmbeddings now ttl q es (Suc i) (sim, Some i)
            else scanEmbeddings now ttl q es (Suc i) best))"

datatype source = Exact | Semantic

text \<open>\<open>{ hit: false }\<close>, or \<open>{ hit: true, response, model, source }\<close>.\<close>

datatype 'r lookup_result = Miss | Hit 'r string source

text \<open>The second step of \<open>lookup\<close>, entered when there is no valid exact entry.\<close>

definition semanticLookup ::
  "real \<Rightarrow> real list option \<Rightarrow> 'r SemanticCache \<Rightarrow> 'r lookup_result \<times> 'r SemanticCache" where
  "semanticLookup now emb c =
     (let miss = (\<lambda>c'. (Miss, c'\<lparr>stats := (stats c')\<lparr>misses := misses (stats c') + 1\<rparr>\<rparr>))
      in case emb of
           None \<Rightarrow> miss c
         | Some q \<Rightarrow>
             (let (use, c1) = shouldUseEmbedding c
              in if \<not> use then miss c1
                 else
                   (case scanEmbeddings now (ttlMs c1) q (embeddingEntries c1) 0 (0, None) of
                      (bestSim, Some i) \<Rightarrow>
                        if bestSim \<ge> similarityThreshold c1 then
                          (let bestEntry = embeddingEntries c1 ! i;
                               c2 = c1\<lparr>embeddingEntries := (embeddingEntries c1)
                                       [i := bestEntry\<lparr>hitCount := hitCount bestEntry + 1\<rparr>]\<rparr>;
                               c3 = touchLRU (hash bestEntry) c2;
                               c4 = c3\<lparr>stats := (stats c3)\<lparr>semanticHits := semanticHits (stats c3) + 1\<rparr>\<rparr>
                           in (Hit (response bestEntry) (model bestEntry) Semantic, c4))
                        else miss c1
                    | (bestSim, None) \<Rightarrow> miss c1)))"

text \<open>\<open>lookup(promptHash, embedding)\<close> at time \<open>now\<close>.\<close>

definition lookup ::
  "real \<Rightarrow> string \<Rightarrow> real list option \<Rightarrow> 'r SemanticCache \<Rightarrow> 'r lookup_result \<times> 'r SemanticCache" where
  "lookup now promptHash emb c0 =
     (let c1 = c0\<lparr>stats := (stats c0)\<lparr>totalLookups := totalLookups (stats c0) + 1\<rparr>\<rparr>;
          c2 = evictExpired now c1
      in case map_of (exactMatchMap c2) promptHash of
           Some exact \<Rightarrow>
             if now - timestamp exact < ttlMs c2 then
               (let c3 = c2\<lparr>exactMatchMap := AList.update promptHash
                                (exact\<lparr>hitCount := hitCount exact + 1\<rparr>) (exactMatchMap c2)\<rparr>;
                    c4 = touchLRU promptHash c3;
                    c5 = c4\<lparr>stats := (stats c4)\<lparr>exactHits := exactHits (stats c4) + 1\<rparr>\<rparr>
                in (Hit (response exact) (model exact) Exact, c5))
             else semanticLookup now emb c2
         | None \<Rightarrow> semanticLookup now emb c2)"

text \<open>
  The eviction loop at the head of \<open>store\<close>:
  \<^verbatim>\<open>while (this.exactMatchMap.size >= this.maxSize) {
    const oldestHash = this.accessOrder.shift();
    if (oldestHash) { delete it from the map and from embeddingEntries }
}\<close>
  \<open>shift()\<close> on an empty array returns \<open>undefined\<close> and changes nothing, and the empty
  string is falsy too. The loop need not end: \<open>None\<close> is the loop that runs forever.
\<close>

partial_function (option) evictLRU :: "'r SemanticCache \<Rightarrow> 'r SemanticCache option" where
  "evictLRU c =
     (if real (length (exactMatchMap c)) \<ge> maxSize c then
        (case accessOrder c of
           [] \<Rightarrow> evictLRU c
         | oldestHash # rest \<Rightarrow>
             if oldestHash \<noteq> [] then
               evictLRU (c\<lparr>accessOrder := rest,
                           exactMatchMap := AList.delete oldestHash (exactMatchMap c),
                           embeddingEntries :=
                             filter (\<lambda>e. hash e \<noteq> oldestHash) (embeddingEntries c)\<rparr>)
             else evictLRU (c\<lparr>accessOrder := rest\<rparr>))
      else Some c)"

text \<open>\<open>store(promptHash, response, model, embedding)\<close> at time \<open>now\<close>.\<close>

definition store ::
  "real \<Rightarrow> string \<Rightarrow> 'r \<Rightarrow> string \<Rightarrow> real list option \<Rightarrow> 'r SemanticCache \<Rightarrow> 'r SemanticCache option" where
  "store now promptHash r m emb c0 =
     (case evictLRU c0 of
        None \<Rightarrow> None
      | Some c1 \<Rightarrow>
          (let ent = \<lparr>response = r, model = m, timestamp = now, hitCount = 0\<rparr>;
               c2 = c1\<lparr>exactMatchMap := AList.update promptHash ent (exactMatchMap c1)\<rparr>;
               c3 = touchLRU promptHash c2
           in case emb of
                None \<Rightarrow> Some c3
              | Some q \<Rightarrow>
                  Some (c3\<lparr>embeddingEntries := embeddingEntries c3 @
                             [\<lparr>response = r, model = m, timestamp = timestamp ent, hitCount = 0,
                               hash = promptHash, embedding = q\<rparr>],
                           stats := (stats c3)\<lparr>embeddingsComputed :=
                             embeddingsComputed (stats c3) + 1\<rparr>\<rparr>)))"

text \<open>
  What holds of a cache that has been reached from a new one by \<open>store\<close> and \<open>lookup\<close> with
  non-empty hashes (the hashes of \<open>hashPrompt\<close> are 16 hexadecimal digits): the keys of the
  map are distinct and non-empty, and every key is in \<open>accessOrder\<close>.
\<close>

definition cache_inv :: "'r SemanticCache \<Rightarrow> bool" where
  "cache_inv c =
     (distinct (map fst (exactMatchMap c)) \<and>
      list_all (\<lambda>k. k \<noteq> [] \<and> List.member (accessOrder c) k) (map fst (exactMatchMap c)))"

text \<open>What holds of the cache the eviction loop returns, when it returns: the capacity is
  the same, the map is below it, and an entry under the empty hash has not been deleted.\<close>

definition evict_post :: "'r SemanticCache \<Rightarrow> 'r SemanticCache \<Rightarrow> bool" where
  "evict_post c y \<longleftrightarrow> maxSize y = maxSize c \<and> real (length (exactMatchMap y)) < maxSize y \<and>
    (\<forall>e. ([], e) \<in> set (exactMatchMap c) \<longrightarrow> ([], e) \<in> set (exactMatchMap y))"

section \<open>Circuit breaker\<close>

datatype breaker_state = CLOSED | OPEN | HALF_OPEN

text \<open>An entry of \<open>this.events\<close>.\<close>

record event =
  timestamp :: real
  success :: bool
  latencyMs :: real
  timedOut :: bool

text \<open>
  \<open>lastOpenReason\<close>. The source builds one of three template strings; each constructor
  stands for one template and carries the two numbers the template prints:
  \<^item> \<open>ErrorRateReason r t\<close> for \<open>error rate ${r.toFixed(1)}% >= ${t}%\<close>,
  \<^item> \<open>TimeoutRateReason r t\<close> for \<open>timeout rate ${r.toFixed(1)}% >= ${t}%\<close>,
  \<^item> \<open>P95LatencyReason l t\<close> for \<open>P95 latency ${l}ms >= ${t}ms\<close>.
\<close>

datatype open_reason =
  ErrorRateReason real real
| TimeoutRateReason real real
| P95LatencyReason real real

record breaker_options =
  opt_errorRateThreshold :: "real option"
  opt_timeoutRateThreshold :: "real option"
  opt_p95LatencyThreshold :: "real option"
  opt_minSamples :: "real option"
  opt_windowMs :: "real option"
  opt_baseCooldownMs :: "real option"
  opt_maxCooldownMs :: "real option"

definition no_breaker_options :: breaker_options where
  "no_breaker_options =
     \<lparr>opt_errorRateThreshold = None, opt_timeoutRateThreshold = None,
      opt_p95LatencyThreshold = None, opt_minSamples = None, opt_windowMs = None,
      opt_baseCooldownMs = None, opt_maxCooldownMs = None\<rparr>"

record CircuitBreaker =
  name :: string
  state :: breaker_state
  errorRateThreshold :: real
  timeoutRateThreshold :: real
  p95LatencyThreshold :: real
  minSamples :: real
  windowMs :: real
  baseCooldownMs :: real
  maxCooldownMs :: real
  events :: "event list"
  consecutiveFailures :: nat
  cooldownMs :: real
  openedAt :: "real option"
  lastOpenReason :: "open_reason option"

definition new_CircuitBreaker :: "string \<Rightarrow> breaker_options \<Rightarrow> CircuitBreaker" where
  "new_CircuitBreaker n options =
     \<lparr>name = n,
      state = CLOSED,
      errorRateThreshold = or_else (opt_errorRateThreshold options) (5 / 10),
      timeoutRateThreshold = or_else (opt_timeoutRateThreshold options) (3 / 10),
      p95LatencyThreshold = or_else (opt_p95LatencyThreshold options) 30000,
      minSamples = or_else (opt_minSamples options) 5,
      windowMs = or_else (opt_windowMs options) 60000,
      baseCooldownMs = or_else (opt_baseCooldownMs options) 10000,
      maxCooldownMs = or_else (opt_maxCooldownMs options) 120000,
      events = [],
      consecutiveFailures = 0,
      cooldownMs = or_else (opt_baseCooldownMs options) 10000,
      openedAt = None,
      lastOpenReason = None\<rparr>"

text \<open>\<open>_pruneOldEvents\<close>\<close>

definition pruneOldEvents :: "real \<Rightarrow> CircuitBreaker \<Rightarrow> CircuitBreaker" where
  "pruneOldEvents now b =
     (let cutoff = now - windowMs b
      in b\<lparr>events := filter (\<lambda>e. timestamp e > cutoff) (events b)\<rparr>)"

text \<open>The three metrics \<open>_evaluate\<close> computes over the window: \<open>failures / total\<close>,
  \<open>timeouts / total\<close>, and the latency at index \<open>min(ceil(total * 0.95) - 1, total - 1)\<close>
  of the latencies sorted ascending.\<close>

definition errorRate :: "event list \<Rightarrow> real" where
  "errorRate evs = real (length (filter (\<lambda>e. \<not> success e) evs)) / real (length evs)"

definition timeoutRate :: "event list \<Rightarrow> real" where
  "timeoutRate evs = real (length (filter timedOut evs)) / real (length evs)"

definition p95Latency :: "event list \<Rightarrow> real" where
  "p95Latency evs =
     (let total = length evs;
          latencies = sort (map latencyMs evs);
          p95Index = \<lceil>real total * (95 / 100)\<rceil> - 1
      in latencies ! nat (min p95Index (int (length latencies) - 1)))"

text \<open>
  \<open>_evaluate\<close>. With an empty window (which passes the sample test only when
  \<open>minSamples\<close> is not positive) the rates are \<open>0 / 0\<close> and the latency is
  \<open>undefined\<close>; each comparison is then false and the breaker is left as it is.
\<close>

definition evaluate :: "real \<Rightarrow> CircuitBreaker \<Rightarrow> CircuitBreaker" where
  "evaluate now b0 =
     (let b = pruneOldEvents now b0
      in if real (length (events b)) < minSamples b then b
         else if events b = [] then b
         else
           (let reason =
                  (if errorRate (events b) \<ge> errorRateThreshold b
                   then Some (ErrorRateReason (errorRate (events b) * 100)
                                (errorRateThreshold b * 100))
                   else if timeoutRate (events b) \<ge> timeoutRateThreshold b
                   then Some (TimeoutRateReason (timeoutRate (events b) * 100)
                                (timeoutRateThreshold b * 100))
                   else if p95Latency (events b) \<ge> p95LatencyThreshold b
                   then Some (P95LatencyReason (p95Latency (events b)) (p95LatencyThreshold b))
                   else None)
            in case reason of
                 None \<Rightarrow> b
               | Some r \<Rightarrow> b\<lparr>state := OPEN, openedAt := Some now, lastOpenReason := Some r\<rparr>))"

text \<open>\<open>recordResult(success, latencyMs, timedOut)\<close>\<close>

definition recordResult :: "real \<Rightarrow> bool \<Rightarrow> real \<Rightarrow> bool \<Rightarrow> CircuitBreaker \<Rightarrow> CircuitBreaker" where
  "recordResult now s l t b0 =
     (let ev = \<lparr>timestamp = now, success = s, latencyMs = l, timedOut = t\<rparr>;
          b = b0\<lparr>events := events b0 @ [ev]\<rparr>
      in if state b = HALF_OPEN then
           (if s then b\<lparr>state := CLOSED, consecutiveFailures := 0, cooldownMs := baseCooldownMs b\<rparr>
            else b\<lparr>state := OPEN, openedAt := Some now,
                   cooldownMs := min (cooldownMs b * 2) (maxCooldownMs b)\<rparr>)
         else
           evaluate now
             (b\<lparr>consecutiveFailures := (if s then 0 else consecutiveFailures b + 1)\<rparr>))"

text \<open>The window \<open>_evaluate\<close> looks at inside \<open>recordResult\<close>: the events of the breaker and
  the new one, pruned at \<open>now\<close>.\<close>

definition pruned_window :: "real \<Rightarrow> bool \<Rightarrow> real \<Rightarrow> bool \<Rightarrow> CircuitBreaker \<Rightarrow> event list" where
  "pruned_window now s l t b =
     filter (\<lambda>e. timestamp e > now - windowMs b)
       (events b @ [\<lparr>timestamp = now, success = s, latencyMs = l, timedOut = t\<rparr>])"

section \<open>Router\<close>

text \<open>
  An entry of the catalog \<open>models.json\<close> with its key as \<open>model_id\<close> (the source's
  \<open>{ id, ...data }\<close>). The file is not part of the sources: the catalog is a parameter of
  \<open>routeRequest\<close>, a list in the order of \<open>Object.entries\<close>.
\<close>

record model_entry =
  model_id :: string
  provider :: string
  input_cost_per_1m :: real
  output_cost_per_1m :: real
  avg_latency_ms :: real
  reliability :: real
  energy_intensity :: real
  quality_score :: real
  strengths :: "string list option"

text \<open>The fields of a classification that the router reads.\<close>

record classification =
  tier :: string
  confidence :: real
  intent :: string

text \<open>A strategy's weight profile.\<close>

record strategy_weights =
  w_cost :: real
  w_quality :: real
  w_latency :: real
  w_energy :: real
  w_reliability :: real
  w_rl :: real

definition STRATEGY_WEIGHTS :: "(string \<times> strategy_weights) list" where
  "STRATEGY_WEIGHTS =
     [(''cost-first'',
       \<lparr>w_cost = 35 / 100, w_quality = 20 / 100, w_latency = 10 / 100, w_energy = 10 / 100,
        w_reliability = 10 / 100, w_rl = 15 / 100\<rparr>),
      (''green-first'',
       \<lparr>w_cost = 10 / 100, w_quality = 15 / 100, w_latency = 10 / 100, w_energy = 35 / 100,
        w_reliability = 10 / 100, w_rl = 20 / 100\<rparr>),
      (''performance-first'',
       \<lparr>w_cost = 5 / 100, w_quality = 35 / 100, w_latency = 20 / 100, w_energy = 5 / 100,
        w_reliability = 20 / 100, w_rl = 15 / 100\<rparr>),
      (''balanced'',
       \<lparr>w_cost = 20 / 100, w_quality = 20 / 100, w_latency = 15 / 100, w_energy = 15 / 100,
        w_reliability = 15 / 100, w_rl = 15 / 100\<rparr>)]"

definition MIN_BENCHMARK_SAMPLES :: real where
  "MIN_BENCHMARK_SAMPLES = 20"

definition normalizeMinMax :: "real \<Rightarrow> real \<Rightarrow> real \<Rightarrow> real" where
  "normalizeMinMax v mn mx = (if mx = mn then 1 / 2 else max 0 (min 1 ((v - mn) / (mx - mn))))"

definition invertNormalize :: "real \<Rightarrow> real \<Rightarrow> real \<Rightarrow> real" where
  "invertNormalize v mn mx = 1 - normalizeMinMax v mn mx"

definition blendWithBaseline :: "real \<Rightarrow> real \<Rightarrow> real \<Rightarrow> real" where
  "blendWithBaseline observed baseline sampleCount =
     (let coeff = min (sampleCount / MIN_BENCHMARK_SAMPLES) 1
      in coeff * observed + (1 - coeff) * baseline)"

definition intentStrengthMap :: "(string \<times> string list) list" where
  "intentStrengthMap =
     [(''code'', [''code'', ''reasoning'']),
      (''math'', [''math'', ''reasoning'']),
      (''analysis'', [''analysis'', ''reasoning'']),
      (''creative'', [''creative'']),
      (''translation'', [''translation'']),
      (''qa'', [''qa'', ''summarization'']),
      (''general'', [])]"

text \<open>\<open>qualityMatchScore(intent, modelStrengths, baseQuality)\<close>; a missing \<open>strengths\<close> and
  the empty intent are falsy.\<close>

definition qualityMatchScore :: "string \<Rightarrow> string list option \<Rightarrow> real \<Rightarrow> real" where
  "qualityMatchScore i modelStrengths baseQuality =
     (case modelStrengths of
        None \<Rightarrow> baseQuality / 100
      | Some ss \<Rightarrow>
          if i = [] then baseQuality / 100
          else
            (let relevantStrengths = (case map_of intentStrengthMap i of Some r \<Rightarrow> r | None \<Rightarrow> []);
                 matchCount = length (filter (\<lambda>s. s \<in> set ss) relevantStrengths);
                 strengthBonus =
                   (if length relevantStrengths > 0
                    then real matchCount / real (length relevantStrengths) * (2 / 10) else 0)
             in min 1 (baseQuality / 100 + strengthBonus)))"

definition TIER_MIN_QUALITY :: "(string \<times> real) list" where
  "TIER_MIN_QUALITY =
     [(''trivial'', 0), (''simple'', 0), (''moderate'', 60), (''complex'', 80), (''expert'', 90)]"

text \<open>
  A value of \<open>benchmarkMetrics\<close>, as \<open>Benchmarker.getMetrics\<close> builds it; \<open>avgLatencyMs\<close>
  may be \<open>null\<close>. Of a value of \<open>breakerStates\<close> only the field \<open>state\<close> is read, so the map
  holds the state itself.
\<close>

record benchmark =
  avgLatencyMs :: "real option"
  bm_errorRate :: "real option"
  sampleCount :: "real option"

record route_options =
  rlScores :: "string \<rightharpoonup> real"
  benchmarkMetrics :: "string \<rightharpoonup> benchmark"
  breakerStates :: "string \<rightharpoonup> breaker_state"
  tenantAllowedModels :: "string list option"
  confidenceThreshold :: "real option"

text \<open>The test of the circuit-breaker filter:
  \<^verbatim>\<open>const state = breakerStates[m.id] || breakerStates[m.provider];
if (state && state.state === 'OPEN') ...\<close>\<close>

definition circuitOpen :: "(string \<rightharpoonup> breaker_state) \<Rightarrow> model_entry \<Rightarrow> bool" where
  "circuitOpen bs m =
     ((case bs (model_id m) of Some s \<Rightarrow> Some s | None \<Rightarrow> bs (provider m)) = Some OPEN)"

text \<open>What the router logs; each constructor is one call of the logger, with the model id
  where the message has one.\<close>

datatype route_log =
  SkippingModelCircuitOpen string
| LowConfidenceBias
| NoViableCandidates
| RoutingDecision string

record score_breakdown =
  b_cost :: real
  b_quality :: real
  b_latency :: real
  b_energy :: real
  b_reliability :: real
  b_rl :: real

record scored_candidate =
  cand_id :: string
  cand_provider :: string
  totalScore :: real
  breakdown :: score_breakdown
  cand_weights :: strategy_weights
  modelData :: model_entry

text \<open>The returned object, without the string \<open>reasoning\<close>, which repeats the other fields.\<close>

record route_result =
  selectedModel :: model_entry
  selectedModelId :: string
  route_score :: real
  scoreBreakdown :: score_breakdown
  allCandidates :: "scored_candidate list"
  route_classification :: classification
  route_strategy :: string

datatype route_error = TypeError

text \<open>\<open>Math.min(...xs)\<close> and \<open>Math.max(...xs)\<close> of a non-empty array.\<close>

definition Math_min :: "real list \<Rightarrow> real" where
  "Math_min xs = fold min (tl xs) (hd xs)"

definition Math_max :: "real list \<Rightarrow> real" where
  "Math_max xs = fold max (tl xs) (hd xs)"

text \<open>The latency that enters the normalisation range; \<open>Math.min\<close> and \<open>Math.max\<close> read a
  \<open>null\<close> as 0.\<close>

definition latencyValue :: "(string \<rightharpoonup> benchmark) \<Rightarrow> model_entry \<Rightarrow> real" where
  "latencyValue bms m =
     (case bms (model_id m) of
        Some bm \<Rightarrow> (case avgLatencyMs bm of Some v \<Rightarrow> v | None \<Rightarrow> 0)
      | None \<Rightarrow> avg_latency_ms m)"

text \<open>The candidate filters, in the order of the source: allowlist, circuit breaker,
  minimum quality for the tier, and the low-confidence adjustment.\<close>

definition allowlisted :: "route_options \<Rightarrow> model_entry list \<Rightarrow> model_entry list" where
  "allowlisted opts ms =
     (case tenantAllowedModels opts of
        None \<Rightarrow> ms
      | Some allowed \<Rightarrow> filter (\<lambda>m. model_id m \<in> set allowed) ms)"

definition viable :: "route_options \<Rightarrow> model_entry list \<Rightarrow> model_entry list" where
  "viable opts ms = filter (\<lambda>m. \<not> circuitOpen (breakerStates opts) m) (allowlisted opts ms)"

definition minQualityFor :: "classification \<Rightarrow> real" where
  "minQualityFor cls = (case map_of TIER_MIN_QUALITY (tier cls) of Some q \<Rightarrow> q | None \<Rightarrow> 0)"

definition qualityFiltered :: "classification \<Rightarrow> model_entry list \<Rightarrow> model_entry list" where
  "qualityFiltered cls cands =
     (let qualityCandidates = filter (\<lambda>m. quality_score m \<ge> minQualityFor cls) cands
      in if length qualityCandidates > 0 then qualityCandidates else cands)"

definition lowConfidence :: "classification \<Rightarrow> route_options \<Rightarrow> bool" where
  "lowConfidence cls opts =
     (confidence cls < (case confidenceThreshold opts of Some t \<Rightarrow> t | None \<Rightarrow> 5 / 10))"

definition safeCandidates :: "classification \<Rightarrow> model_entry list \<Rightarrow> model_entry list" where
  "safeCandidates cls cands =
     (let adjustedMinQuality = min (minQualityFor cls + 15) 95
      in filter (\<lambda>m. quality_score m \<ge> adjustedMinQuality) cands)"

definition confidenceFiltered ::
  "classification \<Rightarrow> route_options \<Rightarrow> model_entry list \<Rightarrow> model_entry list" where
  "confidenceFiltered cls opts cands =
     (if lowConfidence cls opts \<and> length (safeCandidates cls cands) > 0
      then safeCandidates cls cands else cands)"

text \<open>The candidates that are scored: the filtered ones, or every model of the catalog when
  the filters have left none.\<close>

definition finalCandidates ::
  "model_entry list \<Rightarrow> classification \<Rightarrow> route_options \<Rightarrow> model_entry list" where
  "finalCandidates ms cls opts =
     (let candidates = confidenceFiltered cls opts (qualityFiltered cls (viable opts ms))
      in if length candidates = 0 then ms else candidates)"

definition routeLogs ::
  "model_entry list \<Rightarrow> classification \<Rightarrow> route_options \<Rightarrow> route_log list" where
  "routeLogs ms cls opts =
     map (\<lambda>m. SkippingModelCircuitOpen (model_id m))
       (filter (circuitOpen (breakerStates opts)) (allowlisted opts ms)) @
     (if lowConfidence cls opts \<and>
         length (safeCandidates cls (qualityFiltered cls (viable opts ms))) > 0
      then [LowConfidenceBias] else []) @
     (if length (confidenceFiltered cls opts (qualityFiltered cls (viable opts ms))) = 0
      then [NoViableCandidates] else [])"

text \<open>The score of one candidate, given the normalisation ranges.\<close>

definition scoreCandidate ::
  "strategy_weights \<Rightarrow> classification \<Rightarrow> route_options \<Rightarrow>
   real \<times> real \<Rightarrow> real \<times> real \<Rightarrow> real \<times> real \<Rightarrow> model_entry \<Rightarrow> scored_candidate" where
  "scoreCandidate weights cls opts costRange latRange energyRange m =
     (let avgCost = (input_cost_per_1m m + output_cost_per_1m m) / 2;
          bm = benchmarkMetrics opts (model_id m);
          samples = (case bm of Some b \<Rightarrow> or_else (sampleCount b) 0 | None \<Rightarrow> 0);
          realLatency =
            (case bm of
               Some b \<Rightarrow>
                 (case avgLatencyMs b of
                    Some v \<Rightarrow> blendWithBaseline v (avg_latency_ms m) samples
                  | None \<Rightarrow> avg_latency_ms m)
             | None \<Rightarrow> avg_latency_ms m);
          realReliability =
            (case bm of
               Some b \<Rightarrow>
                 (case bm_errorRate b of
                    Some er \<Rightarrow> blendWithBaseline (1 - er) (reliability m) samples
                  | None \<Rightarrow> reliability m)
             | None \<Rightarrow> reliability m);
          costScore = invertNormalize avgCost (fst costRange) (snd costRange);
          qualityScore = qualityMatchScore (intent cls) (strengths m) (quality_score m);
          latencyScore = invertNormalize realLatency (fst latRange) (snd latRange);
          energyScore = invertNormalize (energy_intensity m) (fst energyRange) (snd energyRange);
          reliabilityScore = realReliability;
          rlScore = or_else (rlScores opts (model_id m)) (5 / 10);
          total =
            w_cost weights * costScore + w_quality weights * qualityScore +
            w_latency weights * latencyScore + w_energy weights * energyScore +
            w_reliability weights * reliabilityScore + w_rl weights * rlScore
      in \<lparr>cand_id = model_id m,
          cand_provider = provider m,
          totalScore = round3 total,
          breakdown =
            \<lparr>b_cost = round3 costScore, b_quality = round3 qualityScore,
             b_latency = round3 latencyScore, b_energy = round3 energyScore,
             b_reliability = round3 reliabilityScore, b_rl = round3 rlScore\<rparr>,
          cand_weights = weights,
          modelData = m\<rparr>)"

text \<open>
  \<open>routeRequest(classification, strategy, options)\<close> over the catalog \<open>ms\<close>: the log and
  the result. With an empty catalog \<open>scoredCandidates[0]\<close> is \<open>undefined\<close> and reading
  \<open>best.id\<close> throws. \<open>Array.prototype.sort\<close> is stable, as \<open>sort_key\<close> is.
\<close>

definition routeRequest ::
  "model_entry list \<Rightarrow> classification \<Rightarrow> string \<Rightarrow> route_options \<Rightarrow>
   route_error + route_log list \<times> route_result" where
  "routeRequest ms cls strat opts =
     (let weights =
            (case map_of STRATEGY_WEIGHTS strat of
               Some w \<Rightarrow> w
             | None \<Rightarrow> the (map_of STRATEGY_WEIGHTS ''balanced''));
          candidates = finalCandidates ms cls opts;
          logs = routeLogs ms cls opts
      in if candidates = [] then Inl TypeError
         else
           (let costValues = map (\<lambda>m. (input_cost_per_1m m + output_cost_per_1m m) / 2) candidates;
                latencyValues = map (latencyValue (benchmarkMetrics opts)) candidates;
                energyValues = map energy_intensity candidates;
                scoredCandidates =
                  map (scoreCandidate weights cls opts
                         (Math_min costValues, Math_max costValues)
                         (Math_min latencyValues, Math_max latencyValues)
                         (Math_min energyValues, Math_max energyValues)) candidates;
                sorted = sort_key (\<lambda>c. - totalScore c) scoredCandidates;
                best = hd sorted
            in Inr (logs @ [RoutingDecision (cand_id best)],
                    \<lparr>selectedModel = modelData best,
                     selectedModelId = cand_id best,
                     route_score = totalScore best,
                     scoreBreakdown = breakdown best,
                     allCandidates = sorted,
                     route_classification = cls,
                     route_strategy = strat\<rparr>)))"

section \<open>Bandit engine\<close>

text \<open>A Beta posterior \<open>{ alpha, beta }\<close>, and the object \<open>modelId \<rightarrow> posterior\<close>.\<close>

record posterior =
  alpha :: real
  beta :: real

type_synonym weights = "string \<rightharpoonup> posterior"

text \<open>The options of the constructor, each possibly missing.\<close>

record rl_options =
  opt_explorationFloor :: "real option"
  opt_dampeningFactor :: "real option"
  opt_maxWindowSize :: "real option"

definition no_rl_options :: rl_options where
  "no_rl_options =
     \<lparr>opt_explorationFloor = None, opt_dampeningFactor = None, opt_maxWindowSize = None\<rparr>"

record RLEngine =
  modelIds :: "string list"
  explorationFloor :: real
  dampeningFactor :: real
  maxWindowSize :: real
  tenantWeights :: "string \<rightharpoonup> weights"
  globalWeights :: weights

text \<open>\<open>_initWeights\<close>: the prior \<open>alpha = beta = 1\<close> for every model id.\<close>

definition initWeights :: "string list \<Rightarrow> weights" where
  "initWeights ids = fold (\<lambda>modelId w. w(modelId \<mapsto> \<lparr>alpha = 1, beta = 1\<rparr>)) ids Map.empty"

definition new_RLEngine :: "string list \<Rightarrow> rl_options \<Rightarrow> RLEngine" where
  "new_RLEngine ids options =
     \<lparr>modelIds = ids,
      explorationFloor = or_else (opt_explorationFloor options) (5 / 100),
      dampeningFactor = or_else (opt_dampeningFactor options) (1 / 10),
      maxWindowSize = or_else (opt_maxWindowSize options) 200,
      tenantWeights = Map.empty,
      globalWeights = initWeights ids\<rparr>"

text \<open>\<open>!tenantId\<close>: no tenant id, or the empty string.\<close>

definition no_tenant :: "string option \<Rightarrow> bool" where
  "no_tenant tenantId = (tenantId = None \<or> tenantId = Some [])"

text \<open>
  \<open>_getTenantWeights\<close>: the global object when there is no tenant, else the tenant's object,
  created from the prior on first use. The source returns a reference that the caller
  mutates; the model returns the object with the engine that holds it, and
  \<open>setTenantWeights\<close> writes the mutated object back to the same place.
\<close>

definition getTenantWeights :: "string option \<Rightarrow> RLEngine \<Rightarrow> weights \<times> RLEngine" where
  "getTenantWeights tenantId e =
     (if no_tenant tenantId then (globalWeights e, e)
      else
        (case tenantWeights e (the tenantId) of
           None \<Rightarrow>
             (let w = initWeights (modelIds e)
              in (w, e\<lparr>tenantWeights := (tenantWeights e)(the tenantId \<mapsto> w)\<rparr>))
         | Some w \<Rightarrow> (w, e)))"

definition setTenantWeights :: "string option \<Rightarrow> weights \<Rightarrow> RLEngine \<Rightarrow> RLEngine" where
  "setTenantWeights tenantId w e =
     (if no_tenant tenantId then e\<lparr>globalWeights := w\<rparr>
      else e\<lparr>tenantWeights := (tenantWeights e)(the tenantId \<mapsto> w)\<rparr>)"

text \<open>The update of one posterior in \<open>recordFeedback\<close>: the dampened increments, then the
  rescaling when the sum has passed \<open>maxWindowSize\<close>.\<close>

definition updatePosterior :: "real \<Rightarrow> real \<Rightarrow> real \<Rightarrow> posterior \<Rightarrow> posterior" where
  "updatePosterior d W reward p =
     (let dampedReward = reward * d;
          a = alpha p + dampedReward;
          b = beta p + (1 - reward) * d;
          total = a + b
      in if total > W
         then (let scale = W / total in \<lparr>alpha = a * scale, beta = b * scale\<rparr>)
         else \<lparr>alpha = a, beta = b\<rparr>)"

definition recordFeedback :: "string \<Rightarrow> real \<Rightarrow> string option \<Rightarrow> RLEngine \<Rightarrow> RLEngine" where
  "recordFeedback modelId reward tenantId e =
     (let (w, e1) = getTenantWeights tenantId e
      in case w modelId of
           None \<Rightarrow> e1
         | Some p \<Rightarrow>
             setTenantWeights tenantId
               (w(modelId \<mapsto> updatePosterior (dampeningFactor e1) (maxWindowSize e1) reward p)) e1)"

text \<open>A sequence of calls \<open>recordFeedback(modelId, reward, tenantId)\<close>, in order.\<close>

definition recordAll :: "(string \<times> real \<times> string option) list \<Rightarrow> RLEngine \<Rightarrow> RLEngine" where
  "recordAll calls e = fold (\<lambda>(modelId, reward, tenantId). recordFeedback modelId reward tenantId) calls e"

text \<open>Every posterior the engine holds, global or of a tenant.\<close>

definition posteriors :: "RLEngine \<Rightarrow> posterior set" where
  "posteriors e = ran (globalWeights e) \<union> (\<Union>w \<in> ran (tenantWeights e). ran w)"

text \<open>
  A row of table \<open>routing_feedback\<close> as \<open>_computeReward\<close> reads it. A column is
  \<open>Undefined\<close> when the object has no such property, \<open>Null\<close> for SQL NULL. \<open>success\<close> is
  an INTEGER column, read for its truthiness.
\<close>

record feedback =
  success :: "real jsval"
  quality_score :: "real jsval"
  latency_ms :: "real jsval"
  cost :: "real jsval"

fun js_truthy :: "real jsval \<Rightarrow> bool" where
  "js_truthy (Val v) = (v \<noteq> 0)"
| "js_truthy _ = False"

text \<open>\<open>_computeReward\<close>, the pair \<open>(reward, factors)\<close> threaded through the four blocks.\<close>

definition computeReward :: "feedback \<Rightarrow> real" where
  "computeReward fb =
     (let rf0 = (0 :: real, 0 :: nat);
          rf1 = (if success fb \<noteq> Undefined
                 then (fst rf0 + (if js_truthy (success fb) then 4 / 10 else 0), snd rf0 + 1)
                 else rf0);
          rf2 = (case quality_score fb of
                   Val q \<Rightarrow> (fst rf1 + min (q / 10) 1 * (3 / 10), snd rf1 + 1)
                 | _ \<Rightarrow> rf1);
          rf3 = (case latency_ms fb of
                   Val l \<Rightarrow> (fst rf2 + max 0 (1 - l / 30000) * (2 / 10), snd rf2 + 1)
                 | _ \<Rightarrow> rf2);
          rf4 = (case cost fb of
                   Val c \<Rightarrow> (fst rf3 + max 0 (1 - c / (1 / 100)) * (1 / 10), snd rf3 + 1)
                 | _ \<Rightarrow> rf3)
      in if snd rf4 > 0 then min (fst rf4) 1 else 1 / 2)"

text \<open>
  The reward in the specification's words: the four terms, each counted only when its
  factor is present, and the value when no factor is present at all.
\<close>

definition success_term :: "feedback \<Rightarrow> real" where
  "success_term fb = (if success fb \<noteq> Undefined \<and> js_truthy (success fb) then 4 / 10 else 0)"

definition quality_term :: "feedback \<Rightarrow> real" where
  "quality_term fb = (case quality_score fb of Val q \<Rightarrow> min (q / 10) 1 * (3 / 10) | _ \<Rightarrow> 0)"

definition latency_term :: "feedback \<Rightarrow> real" where
  "latency_term fb = (case latency_ms fb of Val l \<Rightarrow> max 0 (1 - l / 30000) * (2 / 10) | _ \<Rightarrow> 0)"

definition cost_term :: "feedback \<Rightarrow> real" where
  "cost_term fb = (case cost fb of Val c \<Rightarrow> max 0 (1 - c / (1 / 100)) * (1 / 10) | _ \<Rightarrow> 0)"

definition no_factor :: "feedback \<Rightarrow> bool" where
  "no_factor fb =
     (success fb = Undefined \<and> \<not> present (quality_score fb) \<and> \<not> present (latency_ms fb) \<and>
      \<not> present (cost fb))"

definition spec_reward :: "feedback \<Rightarrow> real" where
  "spec_reward fb =
     (if no_factor fb then 1 / 2
      else success_term fb + quality_term fb + latency_term fb + cost_term fb)"

text \<open>The invariant of claim C5 on one posterior, for window size \<open>W\<close>.\<close>

definition posterior_ok :: "real \<Rightarrow> posterior \<Rightarrow> bool" where
  "posterior_ok W p = (0 < alpha p \<and> 0 < beta p \<and> alpha p + beta p \<le> W)"

definition engine_ok :: "RLEngine \<Rightarrow> bool" where
  "engine_ok e = (\<forall>p \<in> posteriors e. posterior_ok (maxWindowSize e) p)"

section \<open>Classifier\<close>

text \<open>
  A JavaScript string is the list of its UTF-16 code units, so that \<open>length\<close> is the
  source's \<open>.length\<close>; \<open>js\<close> turns an ASCII literal of the source into such a string.
\<close>

type_synonym jsstring = "nat list"

definition js :: "string \<Rightarrow> jsstring" where
  "js s = map of_char s"

text \<open>
  The regular expressions of \<open>extractFeatures\<close>, by name:
  \<^item> \<open>RE_whitespace\<close> is \<^verbatim>\<open>/\s+/\<close>, \<open>RE_sentence_end\<close> is \<^verbatim>\<open>/[.!?]+/\<close>,
  \<^item> \<open>RE_code_fence\<close> is the global match of three backticks, \<open>RE_inline_code\<close> is a
    backtick, one or more other characters, and a backtick,
  \<^item> \<open>RE_question_mark\<close> is \<^verbatim>\<open>/\?/g\<close>,
  \<^item> \<open>RE_bullet\<close> and \<open>RE_numbered\<close> are the multi-line patterns of a bulleted and of a
    numbered line,
  \<^item> \<open>RE_constraints\<close>, \<open>RE_format\<close> and \<open>RE_prior_reference\<close> are the three
    case-insensitive keyword alternations between word boundaries,
  \<^item> \<open>RE_digits\<close> is \<^verbatim>\<open>/\d+/g\<close>.
\<close>

datatype regex =
  RE_whitespace | RE_sentence_end | RE_code_fence | RE_inline_code | RE_question_mark
| RE_bullet | RE_numbered | RE_constraints | RE_format | RE_prior_reference | RE_digits

text \<open>
  The JavaScript built-ins that \<open>extractFeatures\<close> calls with a regular expression, and
  \<open>toLowerCase\<close>: \<open>re_split r s\<close> is \<open>s.split(r)\<close>, \<open>re_match r s\<close> is
  \<open>s.match(r) || []\<close> for a global \<open>r\<close>, \<open>re_test r s\<close> is \<open>r.test(s)\<close>. They belong to
  the language runtime, not to the repository, and are a parameter of the model: what is
  proved holds whatever they return.
\<close>

record js_runtime =
  re_split :: "regex \<Rightarrow> jsstring \<Rightarrow> jsstring list"
  re_match :: "regex \<Rightarrow> jsstring \<Rightarrow> jsstring list"
  re_test :: "regex \<Rightarrow> jsstring \<Rightarrow> bool"
  toLowerCase :: "jsstring \<Rightarrow> jsstring"

text \<open>\<open>s.includes(t)\<close>: \<open>t\<close> occurs in \<open>s\<close> at some position.\<close>

definition js_includes :: "jsstring \<Rightarrow> jsstring \<Rightarrow> bool" where
  "js_includes s t = list_ex (\<lambda>i. take (length t) (drop i s) = t) [0 ..< Suc (length s - length t)]"

text \<open>The code units that \<open>trim\<close> removes: white space and line terminators.\<close>

definition js_whitespace :: "nat \<Rightarrow> bool" where
  "js_whitespace c =
     (c \<in> set [9, 10, 11, 12, 13, 32, 160, 5760, 8232, 8233, 8239, 8287, 12288, 65279]
      \<or> (8192 \<le> c \<and> c \<le> 8202))"

definition js_trim :: "jsstring \<Rightarrow> jsstring" where
  "js_trim s = rev (dropWhile js_whitespace (rev (dropWhile js_whitespace s)))"

text \<open>\<open>parseInt\<close> of a string that starts with decimal digits (as every match of
  \<open>RE_digits\<close> does): the number they write; \<open>None\<close> is \<open>NaN\<close>.\<close>

definition is_digit :: "nat \<Rightarrow> bool" where
  "is_digit c = (48 \<le> c \<and> c \<le> 57)"

definition parseInt :: "jsstring \<Rightarrow> nat option" where
  "parseInt s =
     (let ds = takeWhile is_digit s
      in if ds = [] then None else Some (fold (\<lambda>c n. 10 * n + (c - 48)) ds 0))"

text \<open>The object \<open>extractFeatures\<close> returns.\<close>

record features =
  charCount :: real
  wordCount :: real
  sentenceCount :: real
  avgWordLength :: real
  avgSentenceLength :: real
  typeTokenRatio :: real
  codeIndicator :: real
  questionDepth :: real
  structuralComplexity :: real
  techDensity :: real
  reasoningDensity :: real
  specificity :: real
  hasPriorReference :: real
  numericalDensity :: real
  hasLargeNumbers :: real

definition technicalTerms :: "string list" where
  "technicalTerms =
     [''algorithm'', ''architecture'', ''implementation'', ''optimization'',
      ''performance'', ''scalability'', ''concurrency'', ''asynchronous'', ''middleware'',
      ''microservice'', ''database'', ''schema'', ''encryption'', ''authentication'',
      ''authorization'', ''infrastructure'', ''deployment'', ''configuration'',
      ''abstraction'', ''inheritance'', ''polymorphism'', ''encapsulation'',
      ''normalization'', ''denormalization'', ''serialization'', ''deserialization'']"

definition reasoningKeywords :: "string list" where
  "reasoningKeywords =
     [''step-by-step'', ''explain why'', ''reason through'', ''think about'',
      ''consider'', ''analyze'', ''evaluate'', ''compare and contrast'',
      ''what are the implications'', ''how would you approach'', ''design a system'']"

definition extractFeatures :: "js_runtime \<Rightarrow> jsstring \<Rightarrow> features" where
  "extractFeatures rt prompt =
     (let ws = filter (\<lambda>w. length w > 0) (re_split rt RE_whitespace prompt);
          sentences = filter (\<lambda>s. length (js_trim s) > 0) (re_split rt RE_sentence_end prompt);
          lowerPrompt = toLowerCase rt prompt;
          nChars = length prompt;
          nWords = length ws;
          nSentences = length sentences;
          avgWordLen = (if nWords > 0 then real (sum_list (map length ws)) / real nWords else 0);
          avgSentenceLen = (if nSentences > 0 then real nWords / real nSentences else 0);
          uniqueWords = remdups (map (toLowerCase rt) ws);
          ttr = (if nWords > 0 then real (length uniqueWords) / real nWords else 0);
          codeBlockCount = real (length (re_match rt RE_code_fence prompt)) / 2;
          hasInlineCode = re_test rt RE_inline_code prompt;
          codeInd = (if codeBlockCount > 0 then 1 else if hasInlineCode then 1 / 2 else 0);
          questionMarks = length (re_match rt RE_question_mark prompt);
          qDepth = min (real questionMarks / 3) 1;
          bulletPoints = length (re_match rt RE_bullet prompt);
          numberedPoints = length (re_match rt RE_numbered prompt);
          structural = min (real (bulletPoints + numberedPoints) / 5) 1;
          techTermCount = length (filter (\<lambda>t. js_includes lowerPrompt (js t)) technicalTerms);
          tech = min (real techTermCount / 5) 1;
          reasoningCount = length (filter (\<lambda>kw. js_includes lowerPrompt (js kw)) reasoningKeywords);
          reasoning = min (real reasoningCount / 3) 1;
          hasConstraints = re_test rt RE_constraints prompt;
          hasFormat = re_test rt RE_format prompt;
          spec = (if hasConstraints then 1 / 2 else 0) + (if hasFormat then 1 / 2 else 0);
          priorRef = re_test rt RE_prior_reference prompt;
          numbers = re_match rt RE_digits prompt;
          largeNumbers =
            list_ex (\<lambda>n. case parseInt n of Some v \<Rightarrow> v > 1000 | None \<Rightarrow> False) numbers;
          numDensity = min (real (length numbers) / 10) 1
      in \<lparr>charCount = min (real nChars / 5000) 1,
          wordCount = min (real nWords / 1000) 1,
          sentenceCount = min (real nSentences / 50) 1,
          avgWordLength = min (avgWordLen / 12) 1,
          avgSentenceLength = min (avgSentenceLen / 40) 1,
          typeTokenRatio = ttr,
          codeIndicator = codeInd,
          questionDepth = qDepth,
          structuralComplexity = structural,
          techDensity = tech,
          reasoningDensity = reasoning,
          specificity = spec,
          hasPriorReference = (if priorRef then 1 else 0),
          numericalDensity = numDensity,
          hasLargeNumbers = (if largeNumbers then 1 else 0)\<rparr>)"

definition TIERS :: "string list" where
  "TIERS = [''trivial'', ''simple'', ''moderate'', ''complex'', ''expert'']"

text \<open>\<open>features[key]\<close> for a key of the weight table.\<close>

definition featureValue :: "features \<Rightarrow> string \<Rightarrow> real option" where
  "featureValue f key =
     map_of
       [(''charCount'', charCount f), (''wordCount'', wordCount f),
        (''sentenceCount'', sentenceCount f), (''avgWordLength'', avgWordLength f),
        (''avgSentenceLength'', avgSentenceLength f), (''typeTokenRatio'', typeTokenRatio f),
        (''codeIndicator'', codeIndicator f), (''questionDepth'', questionDepth f),
        (''structuralComplexity'', structuralComplexity f), (''techDensity'', techDensity f),
        (''reasoningDensity'', reasoningDensity f), (''specificity'', specificity f),
        (''hasPriorReference'', hasPriorReference f),
        (''numericalDensity'', numericalDensity f), (''hasLargeNumbers'', hasLargeNumbers f)]
       key"

text \<open>The weight table of \<open>heuristicClassify\<close>, in the order of \<open>Object.entries\<close>.\<close>

definition heuristic_weights :: "(string \<times> real) list" where
  "heuristic_weights =
     [(''charCount'', 10 / 100), (''wordCount'', 8 / 100), (''sentenceCount'', 5 / 100),
      (''avgWordLength'', 5 / 100), (''avgSentenceLength'', 5 / 100),
      (''typeTokenRatio'', 3 / 100), (''codeIndicator'', 15 / 100),
      (''questionDepth'', 8 / 100), (''structuralComplexity'', 6 / 100),
      (''techDensity'', 12 / 100), (''reasoningDensity'', 10 / 100),
      (''specificity'', 5 / 100), (''hasPriorReference'', 2 / 100),
      (''numericalDensity'', 3 / 100), (''hasLargeNumbers'', 3 / 100)]"

text \<open>
  What \<open>heuristicClassify\<close> and \<open>onnxClassify\<close> return: \<open>{ tier, score, confidence }\<close>. The
  learned path can yield \<open>undefined\<close> for the tier and \<open>NaN\<close> for the numbers; both are
  \<open>None\<close>.
\<close>

record tier_result =
  r_tier :: "string option"
  r_score :: "real option"
  r_confidence :: "real option"

definition heuristicClassify :: "features \<Rightarrow> tier_result" where
  "heuristicClassify f =
     (let rawScore =
            fold (\<lambda>(key, weight) acc. acc + or_else (featureValue f key) 0 * weight)
              heuristic_weights 0;
          sc = min (Math_round (rawScore * 100)) 100;
          tierIndex =
            (if sc \<le> 10 then 0 else if sc \<le> 25 then 1 else if sc \<le> 50 then 2
             else if sc \<le> 75 then 3 else 4 :: nat)
      in \<lparr>r_tier = Some (TIERS ! tierIndex), r_score = Some (real_of_int sc),
          r_confidence = Some (65 / 100)\<rparr>)"

text \<open>The array handed to the learned classifier.\<close>

definition featureArray :: "features \<Rightarrow> real list" where
  "featureArray f =
     [charCount f, wordCount f, sentenceCount f, avgWordLength f, avgSentenceLength f,
      typeTokenRatio f, codeIndicator f, questionDepth f, structuralComplexity f,
      techDensity f, reasoningDensity f, specificity f, hasPriorReference f,
      numericalDensity f, hasLargeNumbers f]"

text \<open>The loop of \<open>onnxClassify\<close> over \<open>probabilities[1..]\<close>: \<open>(maxIdx, maxProb)\<close>.\<close>

fun argmaxFrom :: "real list \<Rightarrow> nat \<Rightarrow> nat \<times> real \<Rightarrow> nat \<times> real" where
  "argmaxFrom [] i best = best"
| "argmaxFrom (p # ps) i best =
     (if p > snd best then argmaxFrom ps (Suc i) (i, p) else argmaxFrom ps (Suc i) best)"

text \<open>
  \<open>onnxClassify(features)\<close>. The session is the parameter \<open>onnx\<close>: \<open>None\<close> when no model
  has been loaded; else the function \<open>run\<close> from the feature array to the array
  \<open>probabilities\<close>, or to \<open>None\<close> when inference throws. The result is \<open>None\<close> for the
  source's \<open>null\<close>.
\<close>

definition onnxClassify :: "(real list \<Rightarrow> real list option) option \<Rightarrow> features \<Rightarrow> tier_result option" where
  "onnxClassify onnx f =
     (case onnx of
        None \<Rightarrow> None
      | Some run \<Rightarrow>
          (case run (featureArray f) of
             None \<Rightarrow> None
           | Some [] \<Rightarrow> Some \<lparr>r_tier = Some (TIERS ! 0), r_score = None, r_confidence = None\<rparr>
           | Some (p0 # ps) \<Rightarrow>
               (let (maxIdx, maxProb) = argmaxFrom ps 1 (0, p0)
                in Some \<lparr>r_tier = (if maxIdx < length TIERS then Some (TIERS ! maxIdx) else None),
                         r_score = Some (real_of_int (Math_round (maxProb * 100))),
                         r_confidence = Some (real_of_int (Math_round (maxProb * 100)) / 100)\<rparr>)))"

text \<open>
  \<open>classify(prompt)\<close>: the tier, score and confidence, the features and the method. The
  intent fields, which \<open>detectIntent\<close> computes from the prompt alone, are left out.
\<close>

record classify_result =
  c_tier :: "string option"
  c_score :: "real option"
  c_confidence :: "real option"
  c_features :: features
  c_method :: string

definition classify ::
  "js_runtime \<Rightarrow> (real list \<Rightarrow> real list option) option \<Rightarrow> jsstring \<Rightarrow> classify_result" where
  "classify rt onnx prompt =
     (let f = extractFeatures rt prompt;
          (cl, method) =
            (case onnxClassify onnx f of
               Some c \<Rightarrow> (c, ''onnx'')
             | None \<Rightarrow> (heuristicClassify f, ''heuristic''))
      in \<lparr>c_tier = r_tier cl, c_score = r_score cl, c_confidence = r_confidence cl,
          c_features = f, c_method = method\<rparr>)"

text \<open>
  The heuristic score and tier in the specification's words: the weighted sum of the
  fifteen features, times 100 and rounded; and the tier by the thresholds 10, 25, 50, 75.
\<close>

definition weighted_sum :: "features \<Rightarrow> real" where
  "weighted_sum f =
     10 / 100 * charCount f + 8 / 100 * wordCount f + 5 / 100 * sentenceCount f +
     5 / 100 * avgWordLength f + 5 / 100 * avgSentenceLength f + 3 / 100 * typeTokenRatio f +
     15 / 100 * codeIndicator f + 8 / 100 * questionDepth f +
     6 / 100 * structuralComplexity f + 12 / 100 * techDensity f +
     10 / 100 * reasoningDensity f + 5 / 100 * specificity f +
     2 / 100 * hasPriorReference f + 3 / 100 * numericalDensity f +
     3 / 100 * hasLargeNumbers f"

definition spec_score :: "features \<Rightarrow> int" where
  "spec_score f = Math_round (weighted_sum f * 100)"

definition spec_tier :: "int \<Rightarrow> string" where
  "spec_tier s =
     (if s \<le> 10 then ''trivial'' else if s \<le> 25 then ''simple''
      else if s \<le> 50 then ''moderate'' else if s \<le> 75 then ''complex'' else ''expert'')"

definition unit_interval :: "real \<Rightarrow> bool" where
  "unit_interval x = (0 \<le> x \<and> x \<le> 1)"

section \<open>Streaming handler\<close>

text \<open>
  One call of \<open>handleStreamingRequest\<close> after the breaker has admitted it, as the state
  its callbacks share and the events that drive them:
  \<^item> \<open>ClientClose t\<close>: \<open>req\<close> emits \<open>close\<close> at time \<open>t\<close>;
  \<^item> \<open>StreamOpened l st\<close>: \<open>chatCompletionStream\<close> resolves with \<open>latencyMs = l\<close> and
    \<open>status = st\<close>, and the three stream listeners are registered;
  \<^item> \<open>OpenFailed t\<close>: it rejects, at time \<open>t\<close>;
  \<^item> \<open>StreamData chunk\<close>, \<open>StreamEnd t\<close>, \<open>StreamError t\<close>: the provider stream emits
    \<open>data\<close>, \<open>end\<close> or \<open>error\<close>.
\<close>

datatype stream_event =
  ClientClose real
| StreamOpened real nat
| OpenFailed real
| StreamData string
| StreamEnd real
| StreamError real

text \<open>The argument of \<open>logRequest\<close>, as far as it varies within one request: the latency
  and the provider status.\<close>

record log_row =
  row_latencyMs :: real
  row_status :: nat

text \<open>
  \<open>written\<close> and \<open>ended\<close> are the calls of \<open>res.write\<close> and \<open>res.end\<close>, \<open>log_rows\<close>
  those of \<open>logRequest\<close>, \<open>breaker_calls\<close> those of \<open>breaker.recordResult\<close>;
  \<open>providerStream\<close> holds the resolved result (\<open>None\<close> for \<open>null\<close>), and \<open>destroyed\<close> says
  that \<open>providerStream.destroy()\<close> has been called. The benchmark, usage and bandit calls
  that follow \<open>logRequest\<close> in the \<open>end\<close> listener are left out.
\<close>

record streaming =
  startTime :: real
  aborted :: bool
  providerStream :: "(real \<times> nat) option"
  destroyed :: bool
  written :: "string list"
  ended :: bool
  log_rows :: "log_row list"
  breaker_calls :: "(bool \<times> real) list"

definition new_streaming :: "real \<Rightarrow> streaming" where
  "new_streaming t0 =
     \<lparr>startTime = t0, aborted = False, providerStream = None, destroyed = False,
      written = [], ended = False, log_rows = [], breaker_calls = []\<rparr>"

text \<open>The chunk written for an error: \<open>data: {"error": ...}\<close>.\<close>

definition error_chunk :: string where
  "error_chunk = ''data: error''"

text \<open>The callbacks of the source, one equation per callback.\<close>

fun handle :: "stream_event \<Rightarrow> streaming \<Rightarrow> streaming" where
  "handle (ClientClose t) s =
     (let s1 = s\<lparr>aborted := True\<rparr>
      in if providerStream s1 \<noteq> None then s1\<lparr>destroyed := True\<rparr> else s1)"
| "handle (StreamOpened l st) s = s\<lparr>providerStream := Some (l, st)\<rparr>"
| "handle (OpenFailed t) s =
     (let s1 = s\<lparr>breaker_calls := breaker_calls s @ [(False, t - startTime s)]\<rparr>
      in if \<not> aborted s1 then s1\<lparr>written := written s1 @ [error_chunk], ended := True\<rparr> else s1)"
| "handle (StreamData chunk) s =
     (if \<not> aborted s then s\<lparr>written := written s @ [chunk]\<rparr> else s)"
| "handle (StreamEnd t) s =
     (case providerStream s of
        None \<Rightarrow> s
      | Some (providerLatency, status) \<Rightarrow>
          (let s1 = (if \<not> aborted s then s\<lparr>ended := True\<rparr> else s);
               totalLatency = t - startTime s1
           in s1\<lparr>breaker_calls := breaker_calls s1 @ [(True, providerLatency)],
                 log_rows := log_rows s1 @
                   [\<lparr>row_latencyMs = totalLatency, row_status = status\<rparr>]\<rparr>))"
| "handle (StreamError t) s =
     (let s1 = (if \<not> aborted s then s\<lparr>written := written s @ [error_chunk], ended := True\<rparr>
                else s)
      in s1\<lparr>breaker_calls := breaker_calls s1 @ [(False, t - startTime s1)]\<rparr>)"

text \<open>
  Which events reach the callbacks. The stream listeners exist only once the stream has
  been opened, and a readable stream that has been destroyed emits neither \<open>data\<close> nor
  \<open>end\<close> any more.
\<close>

fun from_stream :: "stream_event \<Rightarrow> bool" where
  "from_stream (StreamData _) = True"
| "from_stream (StreamEnd _) = True"
| "from_stream (StreamError _) = True"
| "from_stream _ = False"

fun data_or_end :: "stream_event \<Rightarrow> bool" where
  "data_or_end (StreamData _) = True"
| "data_or_end (StreamEnd _) = True"
| "data_or_end _ = False"

definition deliver :: "stream_event \<Rightarrow> streaming \<Rightarrow> streaming" where
  "deliver ev s =
     (if from_stream ev \<and> providerStream s = None then s
      else if data_or_end ev \<and> destroyed s then s
      else handle ev s)"

definition run_stream :: "stream_event list \<Rightarrow> streaming \<Rightarrow> streaming" where
  "run_stream evs s = fold deliver evs s"

section \<open>Example configurations\<close>

text \<open>Concrete tenants, requests and states, at which the theorems below are instantiated.\<close>

definition zero_budget_tenant :: tenant where
  "zero_budget_tenant =
     \<lparr>tenant_id = ''t-zero'', budget_limit_monthly = Some 0, usage_this_month = Some 5,
      rate_limit_rpm = Some 60, allowedModels = None\<rparr>"

definition over_budget_tenant :: tenant where
  "over_budget_tenant =
     \<lparr>tenant_id = ''t-over'', budget_limit_monthly = Some (1 / 100),
      usage_this_month = Some (2 / 100), rate_limit_rpm = Some 60, allowedModels = None\<rparr>"

definition fra_headers :: headers where
  "fra_headers = \<lparr>authorization = Some ''Bearer fra_0a1b'', x_api_key = None\<rparr>"

definition idle_limiter :: limiter where
  "idle_limiter = \<lparr>activeRequests = 0, buckets = Map.empty\<rparr>"

text \<open>A feedback row as \<open>POST /api/feedback\<close> stores it for the body
  \<open>{ success: true, qualityScore: 10, latencyMs: -30000 }\<close>.\<close>

definition negative_latency_row :: feedback where
  "negative_latency_row =
     \<lparr>success = Val 1, quality_score = Val 10, latency_ms = Val (- 30000), cost = Null\<rparr>"

definition plain_row :: feedback where
  "plain_row = \<lparr>success = Val 1, quality_score = Val 8, latency_ms = Val 1500, cost = Null\<rparr>"

definition small_window_options :: rl_options where
  "small_window_options =
     \<lparr>opt_explorationFloor = None, opt_dampeningFactor = None, opt_maxWindowSize = Some 2\<rparr>"

definition two_calls :: "(string \<times> real \<times> string option) list" where
  "two_calls = [(''m1'', 1, None), (''m2'', 1 / 2, Some ''t1'')]"

text \<open>A default breaker after four failures (no timeout) at times 1 to 4.\<close>

definition four_failures :: CircuitBreaker where
  "four_failures =
     fold (\<lambda>t. recordResult t False 120 False) [1, 2, 3, 4]
       (new_CircuitBreaker ''P'' no_breaker_options)"

text \<open>A cache that enables the semantic search from its first entry, and the cache after
  \<open>store('h1', 'resp', 'm1', [1])\<close> at time 0.\<close>

definition one_entry_options :: cache_options where
  "one_entry_options =
     \<lparr>opt_maxSize = None, opt_ttlMs = None, opt_similarityThreshold = None,
      opt_minEntriesForEmbedding = Some 1, opt_minHitRateForEmbedding = None\<rparr>"

definition boundary_cache :: "string SemanticCache" where
  "boundary_cache =
     \<lparr>maxSize = 10000, ttlMs = 3600000, similarityThreshold = 92 / 100,
      minEntriesForEmbedding = 1, minHitRateForEmbedding = 15 / 100,
      exactMatchMap =
        [(''h1'', \<lparr>response = ''resp'', model = ''m1'', timestamp = 0, hitCount = 0\<rparr>)],
      embeddingEntries =
        [\<lparr>response = ''resp'', model = ''m1'', timestamp = 0, hitCount = 0,
          hash = ''h1'', embedding = [1]\<rparr>],
      accessOrder = [''h1''],
      stats = \<lparr>totalLookups = 0, exactHits = 0, semanticHits = 0, misses = 0,
               embeddingsComputed = 1, embeddingsSkipped = 0\<rparr>\<rparr>"

text \<open>A cache of capacity 1 that already holds one entry, stored at time 0.\<close>

definition tiny_options :: cache_options where
  "tiny_options =
     \<lparr>opt_maxSize = Some 1, opt_ttlMs = None, opt_similarityThreshold = None,
      opt_minEntriesForEmbedding = None, opt_minHitRateForEmbedding = None\<rparr>"

definition full_tiny_cache :: "string SemanticCache" where
  "full_tiny_cache =
     (new_SemanticCache tiny_options)
       \<lparr>exactMatchMap :=
          [(''h1'', \<lparr>response = ''old'', model = ''m1'', timestamp = 0, hitCount = 0\<rparr>)],
        accessOrder := [''h1'']\<rparr>"

text \<open>A catalog of two models of two providers, a classification, and two sets of options
  in which the circuit of provider \<open>A\<close> is OPEN: without an allowlist, and with an allowlist
  that admits only the model of provider \<open>A\<close>.\<close>

definition two_models :: "model_entry list" where
  "two_models =
     [\<lparr>model_id = ''m1'', provider = ''A'', input_cost_per_1m = 1, output_cost_per_1m = 3,
       avg_latency_ms = 500, reliability = 99 / 100, energy_intensity = 1, quality_score = 90,
       strengths = Some [''code'']\<rparr>,
      \<lparr>model_id = ''m2'', provider = ''B'', input_cost_per_1m = 5, output_cost_per_1m = 15,
       avg_latency_ms = 1000, reliability = 95 / 100, energy_intensity = 3, quality_score = 70,
       strengths = Some [''qa'']\<rparr>]"

definition trivial_general :: classification where
  "trivial_general = \<lparr>tier = ''trivial'', confidence = 65 / 100, intent = ''general''\<rparr>"

definition provider_A_open :: route_options where
  "provider_A_open =
     \<lparr>rlScores = Map.empty, benchmarkMetrics = Map.empty,
      breakerStates = [''A'' \<mapsto> OPEN, ''B'' \<mapsto> CLOSED],
      tenantAllowedModels = None, confidenceThreshold = None\<rparr>"

definition provider_A_open_only_m1_allowed :: route_options where
  "provider_A_open_only_m1_allowed = provider_A_open\<lparr>tenantAllowedModels := Some [''m1'']\<rparr>"

text \<open>
  What the string built-ins return on the prompt \<open>Hi\<close>: both splits return the prompt as
  their only piece, no pattern matches, and the lower-case form is \<open>hi\<close>. And a learned
  classifier that answers every prompt with the same distribution over the five tiers.
\<close>

definition hi_runtime :: js_runtime where
  "hi_runtime =
     \<lparr>re_split = (\<lambda>r s. [s]), re_match = (\<lambda>r s. []), re_test = (\<lambda>r s. False),
      toLowerCase = map (\<lambda>c. if 65 \<le> c \<and> c \<le> 90 then c + 32 else c)\<rparr>"

definition moderate_session :: "(real list \<Rightarrow> real list option) option" where
  "moderate_session = Some (\<lambda>x. Some [1 / 10, 1 / 10, 6 / 10, 1 / 10, 1 / 10])"

text \<open>A streaming request started at time 0 whose client disconnects at time 500, after
  the first chunk; the provider would have sent one more chunk and ended at time 900.\<close>

definition disconnect_trace :: "stream_event list" where
  "disconnect_trace =
     [StreamOpened 120 200, StreamData ''a'', ClientClose 500, StreamData ''b'', StreamEnd 900]"

section \<open>Budget check\<close>

lemma or_else_usage: "or_else (usage_this_month tn) 0 = usage_number tn"
  by (cases "usage_this_month tn") (simp_all add: or_else_def usage_number_def)

lemma isWithinBudget_iff:
  "isWithinBudget (Some tn) \<longleftrightarrow>
     \<not> (\<exists>b. budget_limit_monthly tn = Some b \<and> b \<noteq> 0 \<and> b \<le> usage_number tn)"
  by (cases "budget_limit_monthly tn") (auto simp: isWithinBudget_def or_else_usage)

lemma fra_key:
  assumes "startsWith k ''fra_''"
  shows "k \<noteq> []" and "\<not> startsWith k ''sk-''" and "\<not> startsWith k ''ant-''"
  using assms by (cases k; simp add: startsWith_def)+

lemma middleware_429_iff:
  "createAuthMiddleware authenticate h = Reject 429 ''budget_exceeded'' \<longleftrightarrow>
     (\<exists>k tn. extractApiKey h = Some k \<and> startsWith k ''fra_'' \<and> authenticate k = Some tn \<and>
        \<not> isWithinBudget (Some tn))"
proof
  assume "createAuthMiddleware authenticate h = Reject 429 ''budget_exceeded''"
  then show "\<exists>k tn. extractApiKey h = Some k \<and> startsWith k ''fra_'' \<and>
      authenticate k = Some tn \<and> \<not> isWithinBudget (Some tn)"
    by (auto simp: createAuthMiddleware_def split: option.splits if_splits)
next
  assume "\<exists>k tn. extractApiKey h = Some k \<and> startsWith k ''fra_'' \<and>
      authenticate k = Some tn \<and> \<not> isWithinBudget (Some tn)"
  then obtain k tn where k: "extractApiKey h = Some k" "startsWith k ''fra_''"
      "authenticate k = Some tn" "\<not> isWithinBudget (Some tn)"
    by blast
  from fra_key [OF k(2)] k show "createAuthMiddleware authenticate h = Reject 429 ''budget_exceeded''"
    by (simp add: createAuthMiddleware_def)
qed

text \<open>
  C10. A tenant whose \<open>budget_limit_monthly\<close> is 0 is within budget whatever its usage, as
  a tenant with no limit is, and the auth middleware never answers 429 \<open>budget_exceeded\<close>
  for a key that authenticates as such a tenant. The budget check fails exactly when the
  limit is non-null and non-zero and the usage has reached it, and the middleware answers
  429 \<open>budget_exceeded\<close> exactly for a \<open>fra_\<close> key that authenticates as a tenant failing it.
\<close>

theorem zero_budget_is_no_limit:
  "(budget_limit_monthly tn = Some 0 \<longrightarrow> isWithinBudget (Some tn)) \<and>
   (budget_limit_monthly tn = None \<longrightarrow> isWithinBudget (Some tn)) \<and>
   (authenticate k = Some tn \<and> extractApiKey h = Some k \<and> budget_limit_monthly tn = Some 0 \<longrightarrow>
      createAuthMiddleware authenticate h \<noteq> Reject 429 ''budget_exceeded'') \<and>
   (\<not> isWithinBudget (Some tn) \<longleftrightarrow>
      (\<exists>b. budget_limit_monthly tn = Some b \<and> b \<noteq> 0 \<and> b \<le> usage_number tn)) \<and>
   (createAuthMiddleware authenticate h = Reject 429 ''budget_exceeded'' \<longleftrightarrow>
      (\<exists>k' tn' b. extractApiKey h = Some k' \<and> startsWith k' ''fra_'' \<and>
         authenticate k' = Some tn' \<and>
         budget_limit_monthly tn' = Some b \<and> b \<noteq> 0 \<and> b \<le> usage_number tn'))"
proof -
  have a: "budget_limit_monthly tn = Some 0 \<longrightarrow> isWithinBudget (Some tn)"
    by (simp add: isWithinBudget_iff)
  have b: "budget_limit_monthly tn = None \<longrightarrow> isWithinBudget (Some tn)"
    by (simp add: isWithinBudget_iff)
  have c: "authenticate k = Some tn \<and> extractApiKey h = Some k \<and>
      budget_limit_monthly tn = Some 0 \<longrightarrow>
      createAuthMiddleware authenticate h \<noteq> Reject 429 ''budget_exceeded''"
    by (auto simp: middleware_429_iff isWithinBudget_iff)
  have d: "\<not> isWithinBudget (Some tn) \<longleftrightarrow>
      (\<exists>b. budget_limit_monthly tn = Some b \<and> b \<noteq> 0 \<and> b \<le> usage_number tn)"
    by (simp add: isWithinBudget_iff)
  have e: "createAuthMiddleware authenticate h = Reject 429 ''budget_exceeded'' \<longleftrightarrow>
      (\<exists>k' tn' b. extractApiKey h = Some k' \<and> startsWith k' ''fra_'' \<and>
         authenticate k' = Some tn' \<and>
         budget_limit_monthly tn' = Some b \<and> b \<noteq> 0 \<and> b \<le> usage_number tn')"
    unfolding middleware_429_iff isWithinBudget_iff by blast
  from a b c d e show ?thesis by blast
qed

theorem zero_budget_is_no_limit_witness:
  "budget_limit_monthly zero_budget_tenant = Some 0 \<and>
   usage_this_month zero_budget_tenant = Some 5 \<and>
   extractApiKey fra_headers = Some ''fra_0a1b'' \<and>
   isWithinBudget (Some zero_budget_tenant) \<and>
   createAuthMiddleware (\<lambda>k. Some zero_budget_tenant) fra_headers
     \<noteq> Reject 429 ''budget_exceeded'' \<and>
   \<not> isWithinBudget (Some over_budget_tenant) \<and>
   createAuthMiddleware (\<lambda>k. Some over_budget_tenant) fra_headers
     = Reject 429 ''budget_exceeded''"
proof -
  have k: "extractApiKey fra_headers = Some ''fra_0a1b''"
    by (simp add: extractApiKey_def fra_headers_def startsWith_def trim_def isSpace_def)
  have z: "budget_limit_monthly zero_budget_tenant = Some 0"
      "usage_this_month zero_budget_tenant = Some 5"
    by (simp_all add: zero_budget_tenant_def)
  have o: "budget_limit_monthly over_budget_tenant = Some (1 / 100)"
      "usage_number over_budget_tenant = 2 / 100"
    by (simp_all add: over_budget_tenant_def usage_number_def)
  have s: "startsWith ''fra_0a1b'' ''fra_''"
    by (simp add: startsWith_def)
  from zero_budget_is_no_limit
    [of zero_budget_tenant "\<lambda>k. Some zero_budget_tenant" "''fra_0a1b''" fra_headers]
    k z
  have 1: "isWithinBudget (Some zero_budget_tenant)"
      "createAuthMiddleware (\<lambda>k. Some zero_budget_tenant) fra_headers
         \<noteq> Reject 429 ''budget_exceeded''"
    by simp_all
  note T = zero_budget_is_no_limit
    [of over_budget_tenant "\<lambda>k. Some over_budget_tenant" "''fra_0a1b''" fra_headers]
  have nb: "\<exists>b. budget_limit_monthly over_budget_tenant = Some b \<and> b \<noteq> 0 \<and>
      b \<le> usage_number over_budget_tenant"
    by (rule exI [of _ "1 / 100"]) (simp add: o)
  have ex: "\<exists>k' tn' b. extractApiKey fra_headers = Some k' \<and> startsWith k' ''fra_'' \<and>
      (\<lambda>k. Some over_budget_tenant) k' = Some tn' \<and>
      budget_limit_monthly tn' = Some b \<and> b \<noteq> 0 \<and> b \<le> usage_number tn'"
    by (intro exI [of _ "''fra_0a1b''"] exI [of _ over_budget_tenant] exI [of _ "1 / 100"])
      (simp add: k s o)
  from T nb ex
  have 2: "\<not> isWithinBudget (Some over_budget_tenant)"
      "createAuthMiddleware (\<lambda>k. Some over_budget_tenant) fra_headers
         = Reject 429 ''budget_exceeded''"
    by blast+
  from k z 1 2 show ?thesis by simp
qed

section \<open>Active-request counter\<close>

lemma track_active_emit_finish_close:
  "activeRequests (fst (fold emit [Finish, Close] (snd (track_active st new_response))))
     = activeRequests st - 1"
  by (simp add: track_active_def emit_def run_listener_def new_response_def)

lemma track_active_emit_close:
  "activeRequests (fst (fold emit [Close] (snd (track_active st new_response))))
     = activeRequests st"
  by (simp add: track_active_def emit_def run_listener_def new_response_def)

lemma anonymous_finish_then_close:
  "activeRequests st < MAX_CONCURRENT \<Longrightarrow>
   active_after now None st [Finish, Close] = Some (activeRequests st - 1)"
  by (simp add: active_after_def createRateLimitMiddleware_def track_active_def emit_def
      run_listener_def new_response_def)

lemma anonymous_close_only:
  "activeRequests st < MAX_CONCURRENT \<Longrightarrow>
   active_after now None st [Close] = Some (activeRequests st)"
  by (simp add: active_after_def createRateLimitMiddleware_def track_active_def emit_def
      run_listener_def new_response_def)

text \<open>Every admitted request, of a tenant or anonymous: the counter has gone up by one, and
  the response carries one decrementing listener for \<open>finish\<close> and one for \<open>close\<close>.\<close>

lemma admitted_request:
  assumes "createRateLimitMiddleware now tn st new_response = (RL_Next, st1, res1)"
  shows "activeRequests st1 = activeRequests st + 1"
    and "finish_listeners res1 = [DecrementActive]"
    and "close_listeners res1 = [DecrementActive]"
  using assms
  by (auto simp: createRateLimitMiddleware_def track_active_def new_response_def getBucket_def
      Let_def split: if_splits option.splits prod.splits)

lemma admitted_finish_then_close:
  assumes "createRateLimitMiddleware now tn st new_response = (RL_Next, st1, res1)"
  shows "activeRequests (fst (fold emit [Finish, Close] (st1, res1))) = activeRequests st - 1"
    and "activeRequests (fst (fold emit [Close] (st1, res1))) = activeRequests st"
    and "activeRequests (fst (fold emit [Finish] (st1, res1))) = activeRequests st"
  using admitted_request [OF assms]
  by (simp_all add: emit_def run_listener_def Let_def)

text \<open>
  C6. The claim is that an admitted request leaves the counter as it found it, whichever
  events end it. A response that completes emits \<open>finish\<close> and then \<open>close\<close>; both
  listeners run, the flag \<open>decremented\<close> is set and never read, and the counter ends one
  below its value before the request: from 0 it reaches -1. Only a response that emits
  \<open>close\<close> alone restores the counter.
\<close>

theorem finish_then_close_decrements_twice:
  "active_after 0 None idle_limiter [Finish, Close] = Some (- 1) \<and>
   active_after 0 None idle_limiter [Close] = Some 0 \<and>
   activeRequests idle_limiter = 0"
  by (simp add: anonymous_finish_then_close anonymous_close_only idle_limiter_def
      MAX_CONCURRENT_def)

section \<open>Cache lookups and the TTL\<close>

lemma evictLRU_below_capacity:
  "real (length (exactMatchMap c)) < maxSize c \<Longrightarrow> evictLRU c = Some c"
  by (subst evictLRU.simps) simp

lemma evictLRU_step:
  assumes "real (length (exactMatchMap c)) \<ge> maxSize c" and "accessOrder c = h # rest"
  shows "evictLRU c =
    (if h \<noteq> [] then
       evictLRU (c\<lparr>accessOrder := rest,
                   exactMatchMap := AList.delete h (exactMatchMap c),
                   embeddingEntries := filter (\<lambda>e. hash e \<noteq> h) (embeddingEntries c)\<rparr>)
     else evictLRU (c\<lparr>accessOrder := rest\<rparr>))"
  using assms by (subst evictLRU.simps) simp

lemma in_set_update:
  "(k, e) \<in> set (AList.update h v al) \<Longrightarrow> (k = h \<and> e = v) \<or> (k, e) \<in> set al"
  by (induction al) (auto split: if_splits)

lemma semanticLookup_source:
  "fst (semanticLookup now emb c) \<noteq> Hit r m Exact"
  by (auto simp: semanticLookup_def Let_def split: option.splits prod.splits)

text \<open>An exact hit returns an entry of the map under the hash looked up, younger than the
  TTL.\<close>

lemma exact_hit_is_fresh:
  assumes "fst (lookup now h emb c) = Hit r m Exact"
  shows "\<exists>e. (h, e) \<in> set (exactMatchMap c) \<and> response e = r \<and> model e = m \<and>
    now - entry.timestamp e < ttlMs c"
proof -
  let ?c2 = "evictExpired now (c\<lparr>stats := (stats c)\<lparr>totalLookups := totalLookups (stats c) + 1\<rparr>\<rparr>)"
  have m: "set (exactMatchMap ?c2) \<subseteq> set (exactMatchMap c)" and t: "ttlMs ?c2 = ttlMs c"
    by (auto simp: evictExpired_def Let_def)
  show ?thesis
  proof (cases "map_of (exactMatchMap ?c2) h")
    case None
    with assms semanticLookup_source [of now emb ?c2 r m] show ?thesis
      by (simp add: lookup_def Let_def)
  next
    case (Some e)
    then have "(h, e) \<in> set (exactMatchMap c)"
      using m by (auto dest: map_of_SomeD)
    with assms Some t semanticLookup_source [of now emb ?c2 r m] show ?thesis
      by (auto simp: lookup_def Let_def split: if_splits)
  qed
qed

lemma nth_Cons_shift: "Suc i \<le> j \<Longrightarrow> (e # es) ! (j - i) = es ! (j - Suc i)"
proof -
  assume "Suc i \<le> j"
  then have "j - i = Suc (j - Suc i)" by arith
  then show ?thesis by simp
qed

lemma scanEmbeddings_index:
  assumes "scanEmbeddings now ttl q es i best = (sim, Some j)"
  shows "snd best = Some j \<or>
    (i \<le> j \<and> j < i + length es \<and> \<not> now - entry.timestamp (es ! (j - i)) > ttl)"
  using assms
proof (induction es arbitrary: i best)
  case Nil
  then show ?case by simp
next
  case (Cons e es)
  let ?sim = "cosineSimilarity q (embedding e)"
  consider (skip) "now - entry.timestamp e > ttl"
    | (better) "\<not> now - entry.timestamp e > ttl" "?sim > fst best"
    | (worse) "\<not> now - entry.timestamp e > ttl" "\<not> ?sim > fst best"
    by blast
  then show ?case
  proof cases
    case skip
    with Cons.prems have "scanEmbeddings now ttl q es (Suc i) best = (sim, Some j)"
      by simp
    from Cons.IH [OF this] show ?thesis
      by (auto simp: nth_Cons_shift)
  next
    case better
    with Cons.prems have "scanEmbeddings now ttl q es (Suc i) (?sim, Some i) = (sim, Some j)"
      by (simp add: Let_def)
    from Cons.IH [OF this] better(1) show ?thesis
      by (auto simp: nth_Cons_shift)
  next
    case worse
    with Cons.prems have "scanEmbeddings now ttl q es (Suc i) best = (sim, Some j)"
      by (simp add: Let_def)
    from Cons.IH [OF this] show ?thesis
      by (auto simp: nth_Cons_shift)
  qed
qed

text \<open>A semantic hit returns an embedding entry that is not older than the TTL; it may be
  exactly as old.\<close>

lemma semantic_hit_not_expired:
  assumes "fst (lookup now h emb c) = Hit r m Semantic"
  shows "\<exists>e \<in> set (embeddingEntries c). response e = r \<and> model e = m \<and>
    now - entry.timestamp e \<le> ttlMs c"
proof -
  let ?c2 = "evictExpired now (c\<lparr>stats := (stats c)\<lparr>totalLookups := totalLookups (stats c) + 1\<rparr>\<rparr>)"
  have e2: "set (embeddingEntries ?c2) \<subseteq> set (embeddingEntries c)" and t: "ttlMs ?c2 = ttlMs c"
    by (auto simp: evictExpired_def Let_def)
  from assms have s: "fst (semanticLookup now emb ?c2) = Hit r m Semantic"
    by (auto simp: lookup_def Let_def split: option.splits if_splits)
  then obtain q where q: "emb = Some q"
    by (cases emb) (auto simp: semanticLookup_def)
  obtain u c1 where u: "shouldUseEmbedding ?c2 = (u, c1)"
    by (cases "shouldUseEmbedding ?c2") auto
  then have c1: "embeddingEntries c1 = embeddingEntries ?c2" "ttlMs c1 = ttlMs ?c2"
    by (auto simp: shouldUseEmbedding_def Let_def split: if_splits)
  obtain sim bi where sc:
    "scanEmbeddings now (ttlMs c1) q (embeddingEntries c1) 0 (0, None) = (sim, bi)"
    by (cases "scanEmbeddings now (ttlMs c1) q (embeddingEntries c1) 0 (0, None)") auto
  from s q u sc obtain j where j: "bi = Some j"
    and r: "response (embeddingEntries c1 ! j) = r" "model (embeddingEntries c1 ! j) = m"
    by (cases bi) (auto simp: semanticLookup_def Let_def split: if_splits)
  from scanEmbeddings_index [OF sc [unfolded j]]
  have "j < length (embeddingEntries c1)"
    and "\<not> now - entry.timestamp (embeddingEntries c1 ! j) > ttlMs c1"
    by simp_all
  then have "embeddingEntries c1 ! j \<in> set (embeddingEntries c)"
    and "now - entry.timestamp (embeddingEntries c1 ! j) \<le> ttlMs c"
    using e2 c1 t by (auto simp del: evictExpired_def)
  with r show ?thesis by blast
qed

lemma shouldUseEmbedding_keeps:
  assumes "shouldUseEmbedding d = (u, d1)"
  shows "exactMatchMap d1 = exactMatchMap d" and "embeddingEntries d1 = embeddingEntries d"
    and "accessOrder d1 = accessOrder d" and "ttlMs d1 = ttlMs d"
  using assms by (auto simp: shouldUseEmbedding_def Let_def split: if_splits)

lemma hit_count_update_keeps:
  fixes xs :: "'a emb_entry list"
  assumes "\<forall>e \<in> set xs. P (entry.timestamp e)"
  shows "\<forall>e \<in> set (xs[i := (xs ! i)\<lparr>hitCount := n\<rparr>]). P (entry.timestamp e)"
proof (cases "i < length xs")
  case True
  then have "xs ! i \<in> set xs" by simp
  with assms have "P (entry.timestamp ((xs ! i)\<lparr>hitCount := n\<rparr>))"
    by simp
  moreover have "set (xs[i := (xs ! i)\<lparr>hitCount := n\<rparr>])
      \<subseteq> insert ((xs ! i)\<lparr>hitCount := n\<rparr>) (set xs)"
    by (rule set_update_subset_insert)
  ultimately show ?thesis
    using assms by blast
next
  case False
  with assms show ?thesis by (simp add: list_update_beyond)
qed

lemma semanticLookup_keeps:
  assumes "\<forall>e \<in> set (embeddingEntries d). P (entry.timestamp e)"
  shows "exactMatchMap (snd (semanticLookup now emb d)) = exactMatchMap d"
    and "\<forall>e \<in> set (embeddingEntries (snd (semanticLookup now emb d))). P (entry.timestamp e)"
proof -
  show "exactMatchMap (snd (semanticLookup now emb d)) = exactMatchMap d"
    by (auto simp: semanticLookup_def Let_def touchLRU_def dest: shouldUseEmbedding_keeps
        split: option.splits prod.splits)
  show "\<forall>e \<in> set (embeddingEntries (snd (semanticLookup now emb d))). P (entry.timestamp e)"
  proof (cases emb)
    case None
    with assms show ?thesis
      by (simp add: semanticLookup_def)
  next
    case (Some q)
    obtain u d1 where u: "shouldUseEmbedding d = (u, d1)"
      by (cases "shouldUseEmbedding d") auto
    note k = shouldUseEmbedding_keeps [OF u]
    from assms k(2) have a: "\<forall>e \<in> set (embeddingEntries d1). P (entry.timestamp e)"
      by simp
    obtain sim bi where sc:
      "scanEmbeddings now (ttlMs d1) q (embeddingEntries d1) 0 (0, None) = (sim, bi)"
      by (cases "scanEmbeddings now (ttlMs d1) q (embeddingEntries d1) 0 (0, None)") auto
    show ?thesis
      using Some u sc a hit_count_update_keeps [OF a]
      by (cases bi) (simp_all add: semanticLookup_def Let_def touchLRU_def)
  qed
qed

text \<open>Lazy eviction: after a lookup the cache holds no entry older than the TTL.\<close>

lemma lookup_evicts_expired:
  "list_all (\<lambda>(k, e). now - entry.timestamp e \<le> ttlMs c) (exactMatchMap (snd (lookup now h emb c))) \<and>
   list_all (\<lambda>e. now - entry.timestamp e \<le> ttlMs c) (embeddingEntries (snd (lookup now h emb c)))"
proof -
  define c2 where "c2 = evictExpired now
    (c\<lparr>stats := (stats c)\<lparr>totalLookups := totalLookups (stats c) + 1\<rparr>\<rparr>)"
  have m2: "\<forall>(k, e) \<in> set (exactMatchMap c2). now - entry.timestamp e \<le> ttlMs c"
    and e2: "\<forall>e \<in> set (embeddingEntries c2). now - entry.timestamp e \<le> ttlMs c"
    by (auto simp: c2_def evictExpired_def Let_def)
  note sl = semanticLookup_keeps [of c2 "\<lambda>t. now - t \<le> ttlMs c", OF e2]
  have l: "lookup now h emb c =
    (case map_of (exactMatchMap c2) h of
       Some exact \<Rightarrow>
         if now - entry.timestamp exact < ttlMs c2 then
           (let c3 = c2\<lparr>exactMatchMap := AList.update h
                        (exact\<lparr>hitCount := hitCount exact + 1\<rparr>) (exactMatchMap c2)\<rparr>;
                c4 = touchLRU h c3;
                c5 = c4\<lparr>stats := (stats c4)\<lparr>exactHits := exactHits (stats c4) + 1\<rparr>\<rparr>
            in (Hit (response exact) (model exact) Exact, c5))
         else semanticLookup now emb c2
     | None \<Rightarrow> semanticLookup now emb c2)"
    by (simp only: lookup_def c2_def Let_def)
  show ?thesis
  proof (cases "map_of (exactMatchMap c2) h")
    case None
    with sl m2 show ?thesis
      by (auto simp: l list_all_iff)
  next
    case (Some exact)
    then have x: "now - entry.timestamp exact \<le> ttlMs c"
      using m2 by (auto dest: map_of_SomeD)
    have "\<forall>(k, e) \<in> set (AList.update h (exact\<lparr>hitCount := n\<rparr>) (exactMatchMap c2)).
        now - entry.timestamp e \<le> ttlMs c" for n
      using m2 x by (auto dest!: in_set_update)
    with sl m2 e2 Some show ?thesis
      by (auto simp: l Let_def list_all_iff touchLRU_def)
  qed
qed

text \<open>
  C3. The claim is that every hit, exact or semantic, returns an entry with
  \<open>now - timestamp < ttl\<close>. The exact path tests just that. The semantic path, and the
  eviction before it, drop an entry only when \<open>now - timestamp > ttl\<close>: an entry stored
  with an embedding at time 0 is returned as a semantic hit by a lookup at time
  \<open>ttl = 3600000\<close>, when \<open>now - timestamp = ttl\<close>.
\<close>

theorem semantic_hit_at_ttl:
  "store 0 ''h1'' ''resp'' ''m1'' (Some [1]) (new_SemanticCache one_entry_options)
     = Some boundary_cache \<and>
   fst (lookup 3600000 ''h2'' (Some [1]) boundary_cache) = Hit ''resp'' ''m1'' Semantic \<and>
   map (\<lambda>e. 3600000 - entry.timestamp e) (embeddingEntries boundary_cache) = [3600000] \<and>
   ttlMs boundary_cache = 3600000"
proof -
  have n: "new_SemanticCache one_entry_options =
      boundary_cache\<lparr>exactMatchMap := [], embeddingEntries := [], accessOrder := [],
        stats := \<lparr>totalLookups = 0, exactHits = 0, semanticHits = 0, misses = 0,
                  embeddingsComputed = 0, embeddingsSkipped = 0\<rparr>\<rparr>"
    by (simp add: new_SemanticCache_def one_entry_options_def boundary_cache_def or_else_def)
  have e: "evictLRU (new_SemanticCache one_entry_options :: string SemanticCache)
      = Some (new_SemanticCache one_entry_options)"
    by (rule evictLRU_below_capacity) (simp add: n boundary_cache_def)
  have s: "store 0 ''h1'' ''resp'' ''m1'' (Some [1]) (new_SemanticCache one_entry_options)
      = Some boundary_cache"
    unfolding store_def e by (simp add: n boundary_cache_def touchLRU_def)
  have c: "cosineSimilarity [1] [1] = 1"
    by (simp add: cosineSimilarity_def)
  have l: "fst (lookup 3600000 ''h2'' (Some [1]) boundary_cache) = Hit ''resp'' ''m1'' Semantic"
    by (simp add: lookup_def evictExpired_def semanticLookup_def shouldUseEmbedding_def
        boundary_cache_def touchLRU_def c Let_def)
  from s l show ?thesis
    by (simp add: boundary_cache_def)
qed

section \<open>Store, then lookup\<close>

lemma cache_inv_iff:
  "cache_inv c \<longleftrightarrow>
     distinct (map fst (exactMatchMap c)) \<and>
     (\<forall>k e. (k, e) \<in> set (exactMatchMap c) \<longrightarrow> k \<noteq> [] \<and> k \<in> set (accessOrder c))"
  by (force simp: cache_inv_def list_all_iff)

lemma new_SemanticCache_inv: "cache_inv (new_SemanticCache options)"
  by (simp add: cache_inv_iff new_SemanticCache_def)

lemma in_set_delete: "(k, e) \<in> set (AList.delete h al) \<longleftrightarrow> (k, e) \<in> set al \<and> k \<noteq> h"
  by (auto simp: AList.delete_eq)

text \<open>The eviction loop ends on a cache that satisfies the invariant when the capacity is
  at least 1: by the time \<open>accessOrder\<close> is used up, the map is empty.\<close>

lemma evictLRU_terminates:
  assumes "cache_inv c" and "1 \<le> maxSize c"
  shows "\<exists>c'. evictLRU c = Some c' \<and> cache_inv c' \<and> ttlMs c' = ttlMs c \<and> maxSize c' = maxSize c"
  using assms
proof (induction "accessOrder c" arbitrary: c)
  case Nil
  then have "exactMatchMap c = []"
    by (cases "exactMatchMap c") (auto simp: cache_inv_iff)
  with Nil have "evictLRU c = Some c"
    by (intro evictLRU_below_capacity) simp
  with Nil show ?case by simp
next
  case (Cons h rest)
  show ?case
  proof (cases "real (length (exactMatchMap c)) < maxSize c")
    case True
    then have "evictLRU c = Some c"
      by (rule evictLRU_below_capacity)
    with Cons.prems show ?thesis by simp
  next
    case False
    let ?d = "c\<lparr>accessOrder := rest,
      exactMatchMap := AList.delete h (exactMatchMap c),
      embeddingEntries := filter (\<lambda>e. hash e \<noteq> h) (embeddingEntries c)\<rparr>"
    let ?s = "c\<lparr>accessOrder := rest\<rparr>"
    from False Cons.hyps(2) have step:
      "evictLRU c = (if h \<noteq> [] then evictLRU ?d else evictLRU ?s)"
      by (intro evictLRU_step) simp_all
    show ?thesis
    proof (cases "h = []")
      case True
      from Cons.prems(1) Cons.hyps(2) [symmetric] True have "cache_inv ?s"
        by (auto simp: cache_inv_iff)
      moreover have "rest = accessOrder ?s" "1 \<le> maxSize ?s"
        using Cons.prems(2) by simp_all
      ultimately have "\<exists>c'. evictLRU ?s = Some c' \<and> cache_inv c' \<and>
          ttlMs c' = ttlMs ?s \<and> maxSize c' = maxSize ?s"
        by (intro Cons.hyps(1))
      with step True show ?thesis by simp
    next
      case False
      from Cons.prems(1) Cons.hyps(2) [symmetric] have "cache_inv ?d"
        by (auto simp: cache_inv_iff in_set_delete distinct_delete)
      moreover have "rest = accessOrder ?d" "1 \<le> maxSize ?d"
        using Cons.prems(2) by simp_all
      ultimately have "\<exists>c'. evictLRU ?d = Some c' \<and> cache_inv c' \<and>
          ttlMs c' = ttlMs ?d \<and> maxSize c' = maxSize ?d"
        by (intro Cons.hyps(1))
      with step False show ?thesis by simp
    qed
  qed
qed

text \<open>
  The invariant cannot do without the non-empty keys: the loop skips a falsy hash without
  deleting its entry, so on a cache of capacity 1 that holds an entry under the empty hash
  it never ends, and neither does \<open>store\<close>.
\<close>

lemma evictLRU_result:
  assumes "evictLRU c = Some y"
  shows "evict_post c y"
proof (rule evictLRU.raw_induct [OF _ assms])
  fix f :: "'a SemanticCache \<Rightarrow> 'a SemanticCache option" and c y
  assume IH: "\<And>x y. f x = Some y \<Longrightarrow> evict_post x y"
  assume body: "(if real (length (exactMatchMap c)) \<ge> maxSize c then
        (case accessOrder c of
           [] \<Rightarrow> f c
         | oldestHash # rest \<Rightarrow>
             if oldestHash \<noteq> [] then
               f (c\<lparr>accessOrder := rest,
                    exactMatchMap := AList.delete oldestHash (exactMatchMap c),
                    embeddingEntries :=
                      filter (\<lambda>e. hash e \<noteq> oldestHash) (embeddingEntries c)\<rparr>)
             else f (c\<lparr>accessOrder := rest\<rparr>))
      else Some c) = Some y"
  show "evict_post c y"
  proof (cases "real (length (exactMatchMap c)) \<ge> maxSize c")
    case False
    with body show ?thesis by (simp add: evict_post_def)
  next
    case True
    show ?thesis
    proof (cases "accessOrder c")
      case Nil
      with True body have "f c = Some y" by simp
      then show ?thesis by (rule IH)
    next
      case (Cons h rest)
      show ?thesis
      proof (cases "h = []")
        case True
        with \<open>real (length (exactMatchMap c)) \<ge> maxSize c\<close> Cons body
        have "f (c\<lparr>accessOrder := rest\<rparr>) = Some y" by simp
        from IH [OF this] show ?thesis by (simp add: evict_post_def)
      next
        case False
        with True Cons body
        have "f (c\<lparr>accessOrder := rest,
            exactMatchMap := AList.delete h (exactMatchMap c),
            embeddingEntries := filter (\<lambda>e. hash e \<noteq> h) (embeddingEntries c)\<rparr>) = Some y"
          by simp
        from IH [OF this] False show ?thesis
          by (auto simp: evict_post_def in_set_delete)
      qed
    qed
  qed
qed

lemma evictLRU_empty_key_diverges:
  assumes "([], e) \<in> set (exactMatchMap c)" and "maxSize c \<le> 1"
  shows "evictLRU c = None"
proof (cases "evictLRU c")
  case None
  then show ?thesis .
next
  case (Some y)
  from evictLRU_result [OF Some]
  have p: "maxSize y = maxSize c" "real (length (exactMatchMap y)) < maxSize y"
    "([], e) \<in> set (exactMatchMap c) \<longrightarrow> ([], e) \<in> set (exactMatchMap y)"
    by (simp_all add: evict_post_def)
  from p(1,2) assms(2) have "real (length (exactMatchMap y)) < 1"
    by linarith
  then have "exactMatchMap y = []"
    by simp
  moreover from p(3) assms(1) have "([], e) \<in> set (exactMatchMap y)"
    by simp
  ultimately have False
    by simp
  then show ?thesis ..
qed

lemma store_empty_key_diverges:
  assumes "([], e) \<in> set (exactMatchMap c)" and "maxSize c \<le> 1"
  shows "store now h r m emb c = None"
  using evictLRU_empty_key_diverges [OF assms] by (simp add: store_def)

lemma store_returns:
  assumes "cache_inv c" and "1 \<le> maxSize c"
  shows "\<exists>c'. store now h r m emb c = Some c' \<and> ttlMs c' = ttlMs c \<and>
    map_of (exactMatchMap c') h = Some \<lparr>response = r, model = m, timestamp = now, hitCount = 0\<rparr>"
proof -
  from evictLRU_terminates [OF assms] obtain c1
    where "evictLRU c = Some c1" "ttlMs c1 = ttlMs c"
    by blast
  then show ?thesis
    by (cases emb) (simp_all add: store_def touchLRU_def Let_def update_conv')
qed

lemma lookup_fresh_exact:
  assumes "map_of (exactMatchMap c) h = Some e" and "now - entry.timestamp e < ttlMs c"
  shows "fst (lookup now h emb c) = Hit (response e) (model e) Exact"
proof -
  from assms have "map_of (filter (\<lambda>(k, e). \<not> now - entry.timestamp e > ttlMs c)
      (exactMatchMap c)) h = Some e"
    by (intro map_of_filter_in) simp_all
  with assms(2) show ?thesis
    by (simp add: lookup_def evictExpired_def Let_def)
qed

lemma insert_remove1: "insert h (set (remove1 h xs)) = insert h (set xs)"
  by (induction xs) auto

lemma touchLRU_keeps:
  "k \<in> set (accessOrder c) \<or> k = h \<Longrightarrow> k \<in> set (accessOrder (touchLRU h c))"
  by (cases "k = h") (auto simp: touchLRU_def in_set_remove1)

lemma touchLRU_inv:
  assumes "cache_inv c"
  shows "cache_inv (touchLRU h c)"
proof -
  have "exactMatchMap (touchLRU h c) = exactMatchMap c"
    by (simp add: touchLRU_def)
  with assms show ?thesis
    unfolding cache_inv_iff using touchLRU_keeps [of _ c h] by auto
qed

lemma update_touch_inv:
  assumes "cache_inv c" and "h \<noteq> []"
  shows "cache_inv (touchLRU h (c\<lparr>exactMatchMap := AList.update h v (exactMatchMap c)\<rparr>))"
proof -
  let ?c = "touchLRU h (c\<lparr>exactMatchMap := AList.update h v (exactMatchMap c)\<rparr>)"
  have m: "exactMatchMap ?c = AList.update h v (exactMatchMap c)"
    by (simp add: touchLRU_def)
  have o: "k \<in> set (accessOrder ?c)" if "k \<in> set (accessOrder c) \<or> k = h" for k
    using that touchLRU_keeps [of k "c\<lparr>exactMatchMap := AList.update h v (exactMatchMap c)\<rparr>" h]
    by simp
  have d: "distinct (map fst (exactMatchMap ?c))"
    using assms(1) by (simp add: m cache_inv_iff distinct_update)
  have "k \<noteq> [] \<and> k \<in> set (accessOrder ?c)" if "(k, e) \<in> set (exactMatchMap ?c)" for k e
  proof -
    from that have "k = h \<or> (k, e) \<in> set (exactMatchMap c)"
      unfolding m by (auto dest: in_set_update)
    with assms o show ?thesis
      by (auto simp: cache_inv_iff)
  qed
  with d show ?thesis
    unfolding cache_inv_iff by blast
qed

text \<open>The invariant is kept by \<open>store\<close> with a non-empty hash, and by \<open>lookup\<close>.\<close>

lemma store_inv:
  assumes "cache_inv c" and "1 \<le> maxSize c" and "h \<noteq> []"
    and "store now h r m emb c = Some c'"
  shows "cache_inv c'"
proof -
  from evictLRU_terminates [OF assms(1,2)] obtain c1
    where e: "evictLRU c = Some c1" and i: "cache_inv c1"
    by blast
  let ?v = "\<lparr>response = r, model = m, timestamp = now, hitCount = 0\<rparr>"
  let ?c3 = "touchLRU h (c1\<lparr>exactMatchMap := AList.update h ?v (exactMatchMap c1)\<rparr>)"
  have 3: "cache_inv ?c3"
    using i assms(3) by (rule update_touch_inv)
  show ?thesis
  proof (cases emb)
    case None
    with assms(4) e have "c' = ?c3"
      by (simp add: store_def Let_def)
    with 3 show ?thesis by simp
  next
    case (Some q)
    with assms(4) e have "exactMatchMap c' = exactMatchMap ?c3"
      and "accessOrder c' = accessOrder ?c3"
      by (auto simp: store_def Let_def)
    with 3 show ?thesis
      by (simp add: cache_inv_iff)
  qed
qed

lemma evictExpired_inv:
  assumes "cache_inv c"
  shows "cache_inv (evictExpired now c)"
proof -
  let ?P = "\<lambda>(h, e). \<not> now - entry.timestamp e > ttlMs c"
  let ?expired = "map fst (filter (\<lambda>(h, e). now - entry.timestamp e > ttlMs c) (exactMatchMap c))"
  have m: "exactMatchMap (evictExpired now c) = filter ?P (exactMatchMap c)"
    and o: "accessOrder (evictExpired now c) = filter (\<lambda>h. h \<notin> set ?expired) (accessOrder c)"
    by (simp_all add: evictExpired_def Let_def)
  from assms have d: "distinct (map fst (exactMatchMap c))"
    by (simp add: cache_inv_iff)
  have "k \<noteq> [] \<and> k \<in> set (accessOrder (evictExpired now c))"
    if "(k, e) \<in> set (exactMatchMap (evictExpired now c))" for k e
  proof -
    from that have in_m: "(k, e) \<in> set (exactMatchMap c)"
      and fresh: "\<not> now - entry.timestamp e > ttlMs c"
      by (auto simp: m)
    have "k \<notin> set ?expired"
    proof
      assume "k \<in> set ?expired"
      then obtain e' where "(k, e') \<in> set (exactMatchMap c)"
        and "now - entry.timestamp e' > ttlMs c"
        by auto
      with d in_m have "e' = e"
        by (auto dest: eq_key_imp_eq_value)
      with fresh \<open>now - entry.timestamp e' > ttlMs c\<close> show False by simp
    qed
    with assms in_m show ?thesis
      by (auto simp: o cache_inv_iff)
  qed
  moreover from d have "distinct (map fst (exactMatchMap (evictExpired now c)))"
    unfolding m by (rule distinct_map_filter)
  ultimately show ?thesis
    unfolding cache_inv_iff by blast
qed

lemma semanticLookup_inv:
  assumes "cache_inv c"
  shows "cache_inv (snd (semanticLookup now emb c))"
proof -
  have s: "exactMatchMap c1 = exactMatchMap c \<and> accessOrder c1 = accessOrder c"
    if "shouldUseEmbedding c = (u, c1)" for u c1
    using that by (auto simp: shouldUseEmbedding_def Let_def split: if_splits)
  have "exactMatchMap (snd (semanticLookup now emb c)) = exactMatchMap c"
    by (auto simp: semanticLookup_def Let_def touchLRU_def dest: s
        split: option.splits prod.splits)
  moreover have "set (accessOrder c) \<subseteq> set (accessOrder (snd (semanticLookup now emb c)))"
    by (auto simp: semanticLookup_def Let_def touchLRU_def insert_remove1 dest!: s
        split: option.splits prod.splits)
  ultimately show ?thesis
    using assms unfolding cache_inv_iff by auto
qed

lemma lookup_inv:
  assumes "cache_inv c"
  shows "cache_inv (snd (lookup now h emb c))"
proof -
  let ?c1 = "c\<lparr>stats := (stats c)\<lparr>totalLookups := totalLookups (stats c) + 1\<rparr>\<rparr>"
  let ?c2 = "evictExpired now ?c1"
  from assms have "cache_inv ?c1"
    by (simp add: cache_inv_iff)
  then have 2: "cache_inv ?c2"
    by (rule evictExpired_inv)
  show ?thesis
  proof (cases "map_of (exactMatchMap ?c2) h")
    case None
    with semanticLookup_inv [OF 2] show ?thesis
      by (simp add: lookup_def Let_def)
  next
    case (Some exact)
    show ?thesis
    proof (cases "now - entry.timestamp exact < ttlMs ?c2")
      case False
      with Some semanticLookup_inv [OF 2] show ?thesis
        by (simp add: lookup_def Let_def)
    next
      case True
      from Some have "(h, exact) \<in> set (exactMatchMap ?c2)"
        by (rule map_of_SomeD)
      with 2 have "h \<noteq> []"
        by (auto simp: cache_inv_iff)
      with 2 have "cache_inv (touchLRU h (?c2\<lparr>exactMatchMap :=
          AList.update h (exact\<lparr>hitCount := hitCount exact + 1\<rparr>) (exactMatchMap ?c2)\<rparr>))"
        by (rule update_touch_inv)
      then have "cache_inv ((touchLRU h (?c2\<lparr>exactMatchMap :=
          AList.update h (exact\<lparr>hitCount := hitCount exact + 1\<rparr>) (exactMatchMap ?c2)\<rparr>))
          \<lparr>stats := st\<rparr>)" for st
        by (simp add: cache_inv_iff)
      with Some True show ?thesis
        by (simp add: lookup_def Let_def)
    qed
  qed
qed

text \<open>
  C9. On a cache that satisfies the invariant of reachable caches and whose capacity is at
  least 1, \<open>store(h, r, m)\<close> returns, for every hash \<open>h\<close>, response \<open>r\<close>, model \<open>m\<close> and
  embedding or none; and a \<open>lookup(h)\<close> on the cache it leaves, made before the TTL of the
  new entry has run out, is a hit with response \<open>r\<close>, model \<open>m\<close> and source \<open>exact\<close>.
\<close>

theorem store_then_lookup_is_exact_hit:
  assumes "cache_inv c" and "1 \<le> maxSize c" and "now' - now < ttlMs c"
  shows "\<exists>c'. store now h r m emb c = Some c' \<and>
    fst (lookup now' h emb' c') = Hit r m Exact"
proof -
  from store_returns [OF assms(1,2)] obtain c'
    where s: "store now h r m emb c = Some c'" and t: "ttlMs c' = ttlMs c"
      and e: "map_of (exactMatchMap c') h =
        Some \<lparr>response = r, model = m, timestamp = now, hitCount = 0\<rparr>"
    by blast
  from e have "fst (lookup now' h emb' c') = Hit r m Exact"
    using lookup_fresh_exact [OF e, of now' emb'] assms(3) t by simp
  with s show ?thesis by blast
qed

theorem store_then_lookup_is_exact_hit_witness:
  "cache_inv full_tiny_cache \<and> 1 \<le> maxSize full_tiny_cache \<and>
   (20 :: real) - 10 < ttlMs full_tiny_cache \<and>
   map fst (exactMatchMap full_tiny_cache) = [''h1''] \<and>
   (\<exists>c'. store 10 ''h2'' ''new'' ''m2'' None full_tiny_cache = Some c' \<and>
      map fst (exactMatchMap c') = [''h2''] \<and>
      fst (lookup 20 ''h2'' None c') = Hit ''new'' ''m2'' Exact)"
proof -
  have i: "cache_inv full_tiny_cache"
    by (simp add: cache_inv_def full_tiny_cache_def)
  have m: "1 \<le> maxSize full_tiny_cache" and t: "(20 :: real) - 10 < ttlMs full_tiny_cache"
    by (simp_all add: full_tiny_cache_def new_SemanticCache_def tiny_options_def or_else_def)
  let ?d = "full_tiny_cache\<lparr>accessOrder := [],
    exactMatchMap := AList.delete ''h1'' (exactMatchMap full_tiny_cache),
    embeddingEntries := filter (\<lambda>e. hash e \<noteq> ''h1'') (embeddingEntries full_tiny_cache)\<rparr>"
  have "evictLRU full_tiny_cache = (if ''h1'' \<noteq> [] then evictLRU ?d
      else evictLRU (full_tiny_cache\<lparr>accessOrder := []\<rparr>))"
    by (rule evictLRU_step)
      (simp_all add: full_tiny_cache_def new_SemanticCache_def tiny_options_def or_else_def)
  moreover have "evictLRU ?d = Some ?d"
    by (rule evictLRU_below_capacity)
      (simp add: full_tiny_cache_def new_SemanticCache_def tiny_options_def or_else_def
        AList.delete_eq)
  ultimately have e: "evictLRU full_tiny_cache = Some ?d"
    by simp
  have k: "map fst (exactMatchMap (the (store 10 ''h2'' ''new'' ''m2'' None full_tiny_cache)))
      = [''h2'']"
    unfolding store_def e
    by (simp add: Let_def touchLRU_def full_tiny_cache_def AList.delete_eq)
  from store_then_lookup_is_exact_hit [OF i m t, of "''h2''" "''new''" "''m2''" None None]
  obtain c' where c': "store 10 ''h2'' ''new'' ''m2'' None full_tiny_cache = Some c'"
      "fst (lookup 20 ''h2'' None c') = Hit ''new'' ''m2'' Exact"
    by blast
  with k have "map fst (exactMatchMap c') = [''h2'']"
    by simp
  with c' have "\<exists>c'. store 10 ''h2'' ''new'' ''m2'' None full_tiny_cache = Some c' \<and>
      map fst (exactMatchMap c') = [''h2''] \<and>
      fst (lookup 20 ''h2'' None c') = Hit ''new'' ''m2'' Exact"
    by (intro exI [of _ c']) simp
  moreover have "map fst (exactMatchMap full_tiny_cache) = [''h1'']"
    by (simp add: full_tiny_cache_def)
  ultimately show ?thesis
    using i m t by simp
qed

section \<open>Opening of the circuit breaker\<close>

lemma recordResult_not_half_open:
  assumes "state b \<noteq> HALF_OPEN"
  shows "recordResult now s l t b =
    evaluate now
      (b\<lparr>events := events b @ [\<lparr>timestamp = now, success = s, latencyMs = l, timedOut = t\<rparr>],
         consecutiveFailures := (if s then 0 else consecutiveFailures b + 1)\<rparr>)"
  using assms by (simp add: recordResult_def Let_def)

lemma evaluate_events:
  "events (evaluate now b) = filter (\<lambda>e. timestamp e > now - windowMs b) (events b)"
  by (simp add: evaluate_def pruneOldEvents_def Let_def split: option.splits)

lemma evaluate_opens:
  fixes now :: real and b :: CircuitBreaker
  assumes "state b = CLOSED"
  defines "w \<equiv> filter (\<lambda>e. timestamp e > now - windowMs b) (events b)"
  defines "breach \<equiv> real (length w) \<ge> minSamples b \<and> w \<noteq> [] \<and>
    (errorRate w \<ge> errorRateThreshold b \<or> timeoutRate w \<ge> timeoutRateThreshold b \<or>
     p95Latency w \<ge> p95LatencyThreshold b)"
  shows "state (evaluate now b) = (if breach then OPEN else CLOSED)"
    and "openedAt (evaluate now b) = (if breach then Some now else openedAt b)"
    and "lastOpenReason (evaluate now b) =
      (if breach then
         Some (if errorRate w \<ge> errorRateThreshold b
               then ErrorRateReason (errorRate w * 100) (errorRateThreshold b * 100)
               else if timeoutRate w \<ge> timeoutRateThreshold b
               then TimeoutRateReason (timeoutRate w * 100) (timeoutRateThreshold b * 100)
               else P95LatencyReason (p95Latency w) (p95LatencyThreshold b))
       else lastOpenReason b)"
  using assms(1) unfolding breach_def w_def
  by (auto simp: evaluate_def pruneOldEvents_def Let_def)

text \<open>
  C2. Let \<open>recordResult\<close> be called at time \<open>now\<close> on a breaker in state CLOSED with the
  default thresholds, and let \<open>w\<close> be the pruned window: the breaker's events and the new
  one, those younger than \<open>windowMs\<close>. The breaker keeps exactly \<open>w\<close>. It is OPEN
  afterwards exactly when \<open>w\<close> has at least 5 events and the error rate is at least 0.5,
  or the timeout rate at least 0.3, or the p95 latency at least 30000 ms; otherwise it is
  still CLOSED, with \<open>openedAt\<close> and \<open>lastOpenReason\<close> untouched. When it opens,
  \<open>openedAt\<close> is \<open>now\<close> and \<open>lastOpenReason\<close> names the first breached threshold in the
  order error rate, timeout rate, p95 latency, with the measured value.
\<close>

theorem closed_breaker_opens_on_breach:
  fixes now l :: real and s t :: bool and b :: CircuitBreaker
  assumes "state b = CLOSED"
    and "errorRateThreshold b = 5 / 10" and "timeoutRateThreshold b = 3 / 10"
    and "p95LatencyThreshold b = 30000" and "minSamples b = 5"
  defines "b' \<equiv> recordResult now s l t b"
  defines "w \<equiv> pruned_window now s l t b"
  defines "breach \<equiv> length w \<ge> 5 \<and>
    (errorRate w \<ge> 5 / 10 \<or> timeoutRate w \<ge> 3 / 10 \<or> p95Latency w \<ge> 30000)"
  shows "events b' = w \<and>
    (state b' = OPEN \<longleftrightarrow> breach) \<and>
    (state b' = CLOSED \<longleftrightarrow> \<not> breach) \<and>
    openedAt b' = (if breach then Some now else openedAt b) \<and>
    lastOpenReason b' =
      (if breach then
         Some (if errorRate w \<ge> 5 / 10 then ErrorRateReason (errorRate w * 100) 50
               else if timeoutRate w \<ge> 3 / 10 then TimeoutRateReason (timeoutRate w * 100) 30
               else P95LatencyReason (p95Latency w) 30000)
       else lastOpenReason b)"
proof -
  let ?b1 = "b\<lparr>events := events b @ [\<lparr>timestamp = now, success = s, latencyMs = l, timedOut = t\<rparr>],
    consecutiveFailures := (if s then 0 else consecutiveFailures b + 1)\<rparr>"
  have r: "b' = evaluate now ?b1"
    using assms(1) by (simp add: b'_def recordResult_not_half_open)
  have w: "w = filter (\<lambda>e. timestamp e > now - windowMs ?b1) (events ?b1)"
    by (simp add: w_def pruned_window_def)
  have c: "state ?b1 = CLOSED"
    using assms(1) by simp
  have five: "real (length w) \<ge> 5 \<longleftrightarrow> length w \<ge> 5"
    by linarith
  have ne: "length w \<ge> 5 \<Longrightarrow> w \<noteq> []"
    by auto
  have br: "breach \<longleftrightarrow> real (length w) \<ge> minSamples ?b1 \<and> w \<noteq> [] \<and>
    (errorRate w \<ge> errorRateThreshold ?b1 \<or> timeoutRate w \<ge> timeoutRateThreshold ?b1 \<or>
     p95Latency w \<ge> p95LatencyThreshold ?b1)"
    using assms(2-5) five ne by (auto simp: breach_def)
  note ev = evaluate_opens [OF c, of now, folded w, folded br]
  have 1: "events b' = w"
    by (simp add: r evaluate_events w)
  have 2: "state b' = (if breach then OPEN else CLOSED)"
    unfolding r by (rule ev(1))
  have 3: "openedAt b' = (if breach then Some now else openedAt b)"
    unfolding r using ev(2) by simp
  have 4: "lastOpenReason b' =
      (if breach then
         Some (if errorRate w \<ge> 5 / 10 then ErrorRateReason (errorRate w * 100) 50
               else if timeoutRate w \<ge> 3 / 10 then TimeoutRateReason (timeoutRate w * 100) 30
               else P95LatencyReason (p95Latency w) 30000)
       else lastOpenReason b)"
    unfolding r using ev(3) assms(2-4) by simp
  from 1 2 3 4 show ?thesis by simp
qed

lemma four_failures_eq:
  "four_failures =
     (new_CircuitBreaker ''P'' no_breaker_options)
       \<lparr>events := map (\<lambda>t. \<lparr>timestamp = t, success = False, latencyMs = 120, timedOut = False\<rparr>)
                    [1, 2, 3, 4],
        consecutiveFailures := 4\<rparr>"
  by (simp add: four_failures_def recordResult_def evaluate_def pruneOldEvents_def
      new_CircuitBreaker_def no_breaker_options_def or_else_def Let_def)

theorem closed_breaker_opens_on_breach_witness:
  "state four_failures = CLOSED \<and>
   errorRateThreshold four_failures = 5 / 10 \<and>
   timeoutRateThreshold four_failures = 3 / 10 \<and>
   p95LatencyThreshold four_failures = 30000 \<and>
   minSamples four_failures = 5 \<and>
   length (pruned_window 5 False 120 False four_failures) = 5 \<and>
   errorRate (pruned_window 5 False 120 False four_failures) = 1 \<and>
   state (recordResult 5 False 120 False four_failures) = OPEN \<and>
   openedAt (recordResult 5 False 120 False four_failures) = Some 5 \<and>
   lastOpenReason (recordResult 5 False 120 False four_failures)
     = Some (ErrorRateReason 100 50)"
proof -
  have c: "state four_failures = CLOSED"
    and th: "errorRateThreshold four_failures = 5 / 10"
      "timeoutRateThreshold four_failures = 3 / 10"
      "p95LatencyThreshold four_failures = 30000" "minSamples four_failures = 5"
    by (simp_all add: four_failures_eq new_CircuitBreaker_def no_breaker_options_def or_else_def)
  have w: "pruned_window 5 False 120 False four_failures =
      map (\<lambda>t. \<lparr>timestamp = t, success = False, latencyMs = 120, timedOut = False\<rparr>)
        [1, 2, 3, 4, 5]"
    by (simp add: pruned_window_def four_failures_eq new_CircuitBreaker_def
        no_breaker_options_def or_else_def)
  have n: "length (pruned_window 5 False 120 False four_failures) = 5"
    and e: "errorRate (pruned_window 5 False 120 False four_failures) = 1"
    by (simp_all add: w errorRate_def)
  from closed_breaker_opens_on_breach [OF c th, of 5 False 120 False] n e
  have "state (recordResult 5 False 120 False four_failures) = OPEN"
    and "openedAt (recordResult 5 False 120 False four_failures) = Some 5"
    and "lastOpenReason (recordResult 5 False 120 False four_failures)
      = Some (ErrorRateReason 100 50)"
    by simp_all
  with c th n e show ?thesis by simp
qed

section \<open>Routing and open circuits\<close>

lemma qualityFiltered_subset: "set (qualityFiltered cls xs) \<subseteq> set xs"
  by (auto simp: qualityFiltered_def Let_def)

lemma qualityFiltered_nonempty: "xs \<noteq> [] \<Longrightarrow> qualityFiltered cls xs \<noteq> []"
  by (auto simp: qualityFiltered_def Let_def)

lemma confidenceFiltered_subset: "set (confidenceFiltered cls opts xs) \<subseteq> set xs"
  by (auto simp: confidenceFiltered_def safeCandidates_def Let_def)

lemma confidenceFiltered_nonempty: "xs \<noteq> [] \<Longrightarrow> confidenceFiltered cls opts xs \<noteq> []"
  by (auto simp: confidenceFiltered_def)

lemma confidenceFiltered_Nil: "confidenceFiltered cls opts [] = []"
  by (simp add: confidenceFiltered_def safeCandidates_def)

lemma qualityFiltered_Nil: "qualityFiltered cls [] = []"
  by (simp add: qualityFiltered_def)

lemma viable_subset: "set (viable opts ms) \<subseteq> set (allowlisted opts ms)"
  and allowlisted_subset: "set (allowlisted opts ms) \<subseteq> set ms"
  by (auto simp: viable_def allowlisted_def split: option.splits)

lemma viable_closed: "m \<in> set (viable opts ms) \<Longrightarrow> \<not> circuitOpen (breakerStates opts) m"
  by (simp add: viable_def)

text \<open>With a viable model the scored candidates are viable models, and nothing is
  reinstated; with none, the whole catalog is scored and the warning is logged.\<close>

lemma finalCandidates_viable:
  assumes "viable opts ms \<noteq> []"
  shows "finalCandidates ms cls opts \<noteq> []"
    and "set (finalCandidates ms cls opts) \<subseteq> set (viable opts ms)"
    and "NoViableCandidates \<notin> set (routeLogs ms cls opts)"
proof -
  let ?c = "confidenceFiltered cls opts (qualityFiltered cls (viable opts ms))"
  from assms have ne: "?c \<noteq> []"
    by (intro confidenceFiltered_nonempty qualityFiltered_nonempty)
  then have f: "finalCandidates ms cls opts = ?c"
    by (simp add: finalCandidates_def Let_def)
  from ne f show "finalCandidates ms cls opts \<noteq> []"
    by simp
  have "set ?c \<subseteq> set (qualityFiltered cls (viable opts ms))"
    by (rule confidenceFiltered_subset)
  also have "\<dots> \<subseteq> set (viable opts ms)"
    by (rule qualityFiltered_subset)
  finally show "set (finalCandidates ms cls opts) \<subseteq> set (viable opts ms)"
    by (simp add: f)
  from ne show "NoViableCandidates \<notin> set (routeLogs ms cls opts)"
    by (auto simp: routeLogs_def)
qed

lemma finalCandidates_fallback:
  assumes "viable opts ms = []"
  shows "finalCandidates ms cls opts = ms"
    and "NoViableCandidates \<in> set (routeLogs ms cls opts)"
  using assms
  by (simp_all add: finalCandidates_def routeLogs_def qualityFiltered_Nil confidenceFiltered_Nil)

lemma modelData_scoreCandidate: "modelData (scoreCandidate w cls opts cr lr er m) = m"
  by (simp add: scoreCandidate_def Let_def)

lemma routeRequest_selects:
  assumes "finalCandidates ms cls opts \<noteq> []"
  shows "\<exists>res. routeRequest ms cls strat opts =
        Inr (routeLogs ms cls opts @ [RoutingDecision (selectedModelId res)], res) \<and>
      selectedModel res \<in> set (finalCandidates ms cls opts) \<and>
      set (map modelData (allCandidates res)) = set (finalCandidates ms cls opts)"
proof -
  define w where "w = (case map_of STRATEGY_WEIGHTS strat of
      Some w \<Rightarrow> w | None \<Rightarrow> the (map_of STRATEGY_WEIGHTS ''balanced''))"
  define cands where "cands = finalCandidates ms cls opts"
  define cr where "cr = (Math_min (map (\<lambda>m. (input_cost_per_1m m + output_cost_per_1m m) / 2) cands),
      Math_max (map (\<lambda>m. (input_cost_per_1m m + output_cost_per_1m m) / 2) cands))"
  define lr where "lr = (Math_min (map (latencyValue (benchmarkMetrics opts)) cands),
      Math_max (map (latencyValue (benchmarkMetrics opts)) cands))"
  define er where "er = (Math_min (map energy_intensity cands),
      Math_max (map energy_intensity cands))"
  define sorted where
    "sorted = sort_key (\<lambda>c. - totalScore c) (map (scoreCandidate w cls opts cr lr er) cands)"
  define res where "res =
      \<lparr>selectedModel = modelData (hd sorted), selectedModelId = cand_id (hd sorted),
       route_score = totalScore (hd sorted), scoreBreakdown = breakdown (hd sorted),
       allCandidates = sorted, route_classification = cls, route_strategy = strat\<rparr>"
  have ne: "cands \<noteq> []"
    using assms by (simp add: cands_def)
  have r: "routeRequest ms cls strat opts =
      Inr (routeLogs ms cls opts @ [RoutingDecision (selectedModelId res)], res)"
    using ne unfolding routeRequest_def Let_def
    by (simp add: res_def sorted_def w_def cands_def cr_def lr_def er_def)
  have s: "set sorted = scoreCandidate w cls opts cr lr er ` set cands"
    by (simp add: sorted_def)
  then have "sorted \<noteq> []"
    using ne by auto
  then have "hd sorted \<in> set sorted"
    by simp
  with s have 1: "selectedModel res \<in> set cands"
    by (auto simp: res_def modelData_scoreCandidate)
  have 2: "set (map modelData (allCandidates res)) = set cands"
    using s by (auto simp: res_def modelData_scoreCandidate image_image)
  from r 1 2 show ?thesis
    unfolding cands_def by blast
qed

text \<open>
  C1, as the claim states it, fails. The circuit of provider \<open>A\<close> is OPEN, that of provider
  \<open>B\<close> is CLOSED, and the tenant's allowlist admits only model \<open>m1\<close> of provider \<open>A\<close>. The
  filters leave no candidate, the fallback reinstates both models with the warning, and the
  better-scoring \<open>m1\<close> is selected: its provider is OPEN although not all providers are.
\<close>

theorem open_provider_selected_counterexample:
  "map_sum (\<lambda>e. e)
     (\<lambda>(logs, res). (logs, model_id (selectedModel res), provider (selectedModel res),
        map cand_id (allCandidates res)))
     (routeRequest two_models trivial_general ''cost-first'' provider_A_open_only_m1_allowed)
     = Inr ([SkippingModelCircuitOpen ''m1'', NoViableCandidates, RoutingDecision ''m1''],
            ''m1'', ''A'', [''m1'', ''m2'']) \<and>
   breakerStates provider_A_open_only_m1_allowed ''A'' = Some OPEN \<and>
   breakerStates provider_A_open_only_m1_allowed ''B'' = Some CLOSED \<and>
   map provider two_models = [''A'', ''B'']"
  by code_simp

text \<open>
  C1, amended. Over a non-empty catalog \<open>routeRequest\<close> returns a selection. When at least
  one model admitted by the tenant's allowlist has a circuit that is not OPEN in
  \<open>options.breakerStates\<close> (looked up under the model's id, else under its provider), the
  selected model is such a model: its circuit is not OPEN, and no warning is logged.
  Otherwise, and so in particular when every circuit is OPEN, the ultimate fallback scores
  every model of the catalog, whatever its circuit and the allowlist, and the warning is
  logged.
\<close>

theorem selected_model_circuit_not_open:
  assumes "ms \<noteq> []"
  shows "\<exists>logs res. routeRequest ms cls strat opts = Inr (logs, res) \<and>
    (if viable opts ms \<noteq> [] then
       selectedModel res \<in> set (allowlisted opts ms) \<and>
       \<not> circuitOpen (breakerStates opts) (selectedModel res) \<and>
       (breakerStates opts (model_id (selectedModel res)) = None \<longrightarrow>
          breakerStates opts (provider (selectedModel res)) \<noteq> Some OPEN) \<and>
       NoViableCandidates \<notin> set logs
     else
       selectedModel res \<in> set ms \<and>
       set (map modelData (allCandidates res)) = set ms \<and>
       NoViableCandidates \<in> set logs) \<and>
    ((\<forall>m \<in> set ms. circuitOpen (breakerStates opts) m) \<longrightarrow> viable opts ms = [])"
proof -
  have all_open: "(\<forall>m \<in> set ms. circuitOpen (breakerStates opts) m) \<longrightarrow> viable opts ms = []"
    using allowlisted_subset [of opts ms] by (auto simp: viable_def filter_empty_conv)
  show ?thesis
  proof (cases "viable opts ms = []")
    case True
    note fb = finalCandidates_fallback [OF True, of cls]
    from assms fb(1) have "finalCandidates ms cls opts \<noteq> []"
      by simp
    from routeRequest_selects [OF this, of strat] obtain res
      where r: "routeRequest ms cls strat opts =
          Inr (routeLogs ms cls opts @ [RoutingDecision (selectedModelId res)], res)"
        and s: "selectedModel res \<in> set ms"
          "set (map modelData (allCandidates res)) = set ms"
      unfolding fb(1) by blast
    from fb(2) have "NoViableCandidates \<in>
        set (routeLogs ms cls opts @ [RoutingDecision (selectedModelId res)])"
      by simp
    with r s True all_open show ?thesis
      by (intro exI [of _ "routeLogs ms cls opts @ [RoutingDecision (selectedModelId res)]"]
          exI [of _ res]) simp
  next
    case False
    note fv = finalCandidates_viable [OF False, of cls]
    from routeRequest_selects [OF fv(1), of strat] obtain res
      where r: "routeRequest ms cls strat opts =
          Inr (routeLogs ms cls opts @ [RoutingDecision (selectedModelId res)], res)"
        and s: "selectedModel res \<in> set (finalCandidates ms cls opts)"
      by blast
    from s fv(2) have v: "selectedModel res \<in> set (viable opts ms)"
      by blast
    then have c: "\<not> circuitOpen (breakerStates opts) (selectedModel res)"
      by (rule viable_closed)
    then have p: "breakerStates opts (model_id (selectedModel res)) = None \<longrightarrow>
        breakerStates opts (provider (selectedModel res)) \<noteq> Some OPEN"
      by (auto simp: circuitOpen_def)
    from v viable_subset [of opts ms] have a: "selectedModel res \<in> set (allowlisted opts ms)"
      by blast
    from fv(3) have "NoViableCandidates \<notin>
        set (routeLogs ms cls opts @ [RoutingDecision (selectedModelId res)])"
      by simp
    with r a c p False all_open show ?thesis
      by (intro exI [of _ "routeLogs ms cls opts @ [RoutingDecision (selectedModelId res)]"]
          exI [of _ res]) simp
  qed
qed

theorem selected_model_circuit_not_open_witness:
  "two_models \<noteq> [] \<and> viable provider_A_open two_models \<noteq> [] \<and>
   circuitOpen (breakerStates provider_A_open) (two_models ! 0) \<and>
   (\<exists>logs res.
      routeRequest two_models trivial_general ''cost-first'' provider_A_open = Inr (logs, res) \<and>
      \<not> circuitOpen (breakerStates provider_A_open) (selectedModel res) \<and>
      NoViableCandidates \<notin> set logs \<and>
      provider (selectedModel res) = ''B'')"
proof -
  have ne: "two_models \<noteq> []"
    by (simp add: two_models_def)
  have v: "viable provider_A_open two_models \<noteq> []"
    by code_simp
  have o: "circuitOpen (breakerStates provider_A_open) (two_models ! 0)"
    by code_simp
  have p: "map_sum (\<lambda>e. e) (\<lambda>(logs, res). provider (selectedModel res))
      (routeRequest two_models trivial_general ''cost-first'' provider_A_open) = Inr ''B''"
    by code_simp
  from selected_model_circuit_not_open [OF ne, of trivial_general "''cost-first''" provider_A_open]
  obtain logs res
    where r: "routeRequest two_models trivial_general ''cost-first'' provider_A_open
        = Inr (logs, res)"
      and c: "\<not> circuitOpen (breakerStates provider_A_open) (selectedModel res)"
        "NoViableCandidates \<notin> set logs"
    using v by auto
  from p r have "provider (selectedModel res) = ''B''"
    by simp
  with r c have "\<exists>logs res.
      routeRequest two_models trivial_general ''cost-first'' provider_A_open = Inr (logs, res) \<and>
      \<not> circuitOpen (breakerStates provider_A_open) (selectedModel res) \<and>
      NoViableCandidates \<notin> set logs \<and>
      provider (selectedModel res) = ''B''"
    by (intro exI [of _ logs] exI [of _ res]) simp
  with ne v o show ?thesis
    by simp
qed

section \<open>Reward of a feedback row\<close>

lemma computeReward_eq:
  "computeReward fb =
     (if no_factor fb then 1 / 2
      else min (success_term fb + quality_term fb + latency_term fb + cost_term fb) 1)"
  by (cases "success fb"; cases "quality_score fb"; cases "latency_ms fb"; cases "cost fb")
    (simp_all add: computeReward_def no_factor_def success_term_def quality_term_def
      latency_term_def cost_term_def)

lemma terms_bounded:
  assumes "\<And>l. latency_ms fb = Val l \<Longrightarrow> 0 \<le> l" and "\<And>c. cost fb = Val c \<Longrightarrow> 0 \<le> c"
  shows "success_term fb + quality_term fb + latency_term fb + cost_term fb \<le> 1"
proof -
  have s: "success_term fb \<le> 4 / 10"
    by (simp add: success_term_def)
  have q: "quality_term fb \<le> 3 / 10"
    by (cases "quality_score fb") (simp_all add: quality_term_def)
  have l: "latency_term fb \<le> 2 / 10"
    using assms(1) by (cases "latency_ms fb") (simp_all add: latency_term_def)
  have c: "cost_term fb \<le> 1 / 10"
    using assms(2) by (cases "cost fb") (simp_all add: cost_term_def)
  from s q l c show ?thesis by linarith
qed

text \<open>
  C8, as the claim states it, fails: the source caps the sum at 1. On the row with
  \<open>success = 1\<close>, \<open>quality_score = 10\<close> and \<open>latency_ms = -30000\<close> the four terms sum to
  \<open>0.4 + 0.3 + 0.4 = 1.1\<close> and \<open>_computeReward\<close> returns 1.
\<close>

theorem reward_sum_counterexample:
  "computeReward negative_latency_row = 1 \<and> spec_reward negative_latency_row = 11 / 10"
  by (simp add: computeReward_def spec_reward_def negative_latency_row_def no_factor_def
      success_term_def quality_term_def latency_term_def cost_term_def)

text \<open>
  C8, amended. The reward of a feedback row is \<open>0.5\<close> when none of the four factors is
  present; otherwise it is the sum of the terms of the factors that are present, success
  giving 0.4, quality \<open>min(q/10, 1) * 0.3\<close>, latency \<open>max(0, 1 - l/30000) * 0.2\<close> and cost
  \<open>max(0, 1 - c/0.01) * 0.1\<close>, capped at 1. When latency and cost are not negative the cap
  does not bite, and the reward is the sum itself.
\<close>

theorem reward_is_capped_sum:
  "computeReward fb =
     (if no_factor fb then 1 / 2
      else min (success_term fb + quality_term fb + latency_term fb + cost_term fb) 1) \<and>
   ((\<forall>l. latency_ms fb = Val l \<longrightarrow> 0 \<le> l) \<and> (\<forall>c. cost fb = Val c \<longrightarrow> 0 \<le> c)
      \<longrightarrow> computeReward fb = spec_reward fb)"
proof -
  have "computeReward fb = spec_reward fb"
    if "\<forall>l. latency_ms fb = Val l \<longrightarrow> 0 \<le> l" and "\<forall>c. cost fb = Val c \<longrightarrow> 0 \<le> c"
  proof -
    from that have "success_term fb + quality_term fb + latency_term fb + cost_term fb \<le> 1"
      by (intro terms_bounded) auto
    then show ?thesis
      by (simp add: computeReward_eq spec_reward_def)
  qed
  then show ?thesis
    using computeReward_eq by blast
qed

theorem reward_is_capped_sum_witness:
  "computeReward plain_row = 4 / 10 + 24 / 100 + 19 / 100 \<and>
   computeReward plain_row = spec_reward plain_row \<and>
   latency_ms plain_row = Val 1500 \<and> cost plain_row = Null"
proof -
  have l: "\<forall>l. latency_ms plain_row = Val l \<longrightarrow> 0 \<le> l"
    and c: "\<forall>c. cost plain_row = Val c \<longrightarrow> 0 \<le> c"
    by (simp_all add: plain_row_def)
  have v: "spec_reward plain_row = 4 / 10 + 24 / 100 + 19 / 100"
    by (simp add: spec_reward_def plain_row_def no_factor_def success_term_def
        quality_term_def latency_term_def cost_term_def)
  from reward_is_capped_sum [of plain_row] l c
  have "computeReward plain_row = spec_reward plain_row" by blast
  with v show ?thesis by (simp add: plain_row_def)
qed

section \<open>Bandit posteriors\<close>

lemma fold_prior:
  "fold (\<lambda>modelId w. w(modelId \<mapsto> \<lparr>alpha = 1, beta = 1\<rparr>)) ids w0 m =
     (if m \<in> set ids then Some \<lparr>alpha = 1, beta = 1\<rparr> else w0 m)"
  by (induction ids arbitrary: w0) auto

lemma initWeights_apply:
  "initWeights ids m = (if m \<in> set ids then Some \<lparr>alpha = 1, beta = 1\<rparr> else None)"
  by (simp add: initWeights_def fold_prior)

lemma initWeights_ok:
  assumes "2 \<le> W" and "initWeights ids m = Some p"
  shows "posterior_ok W p"
  using assms by (auto simp: initWeights_apply posterior_ok_def split: if_splits)

lemma updatePosterior_ok:
  assumes d: "0 \<le> d" and W: "0 < W" and r: "0 \<le> r" "r \<le> 1"
    and p: "0 < alpha p" "0 < beta p"
  shows "posterior_ok W (updatePosterior d W r p)"
proof -
  define a where "a = alpha p + r * d"
  define b where "b = beta p + (1 - r) * d"
  have a: "0 < a"
    unfolding a_def using d r p by (simp add: add_pos_nonneg)
  have b: "0 < b"
    unfolding b_def using d r p by (simp add: add_pos_nonneg)
  show ?thesis
  proof (cases "a + b > W")
    case True
    have s: "0 < W / (a + b)"
      using W a b by simp
    have pa: "0 < a * (W / (a + b))"
      using a s by (rule mult_pos_pos)
    have pb: "0 < b * (W / (a + b))"
      using b s by (rule mult_pos_pos)
    have "a * (W / (a + b)) + b * (W / (a + b)) = (a + b) * (W / (a + b))"
      by (rule distrib_right [symmetric])
    also have "\<dots> = W"
      using a b by simp
    finally have le: "a * (W / (a + b)) + b * (W / (a + b)) \<le> W"
      by simp
    have u: "updatePosterior d W r p = \<lparr>alpha = a * (W / (a + b)), beta = b * (W / (a + b))\<rparr>"
      using True by (simp add: updatePosterior_def Let_def a_def b_def)
    from pa pb le show ?thesis
      unfolding u posterior_ok_def by simp
  next
    case False
    with a b show ?thesis
      by (simp add: updatePosterior_def posterior_ok_def Let_def a_def [symmetric]
          b_def [symmetric])
  qed
qed

text \<open>The rescaling is proportional: it lands on the window size and keeps the ratio.\<close>

lemma updatePosterior_rescales:
  assumes "0 < W" and "alpha p + r * d + (beta p + (1 - r) * d) > W"
  shows "alpha (updatePosterior d W r p) + beta (updatePosterior d W r p) = W"
    and "alpha (updatePosterior d W r p) * (beta p + (1 - r) * d)
           = beta (updatePosterior d W r p) * (alpha p + r * d)"
proof -
  define a where "a = alpha p + r * d"
  define b where "b = beta p + (1 - r) * d"
  have t: "a + b > W" "a + b \<noteq> 0"
    using assms by (simp_all add: a_def b_def)
  have u: "updatePosterior d W r p = \<lparr>alpha = a * (W / (a + b)), beta = b * (W / (a + b))\<rparr>"
    using assms by (simp add: updatePosterior_def Let_def a_def b_def)
  show "alpha (updatePosterior d W r p) * (beta p + (1 - r) * d)
           = beta (updatePosterior d W r p) * (alpha p + r * d)"
    by (simp add: u a_def [symmetric] b_def [symmetric])
  have "a * (W / (a + b)) + b * (W / (a + b)) = (a + b) * (W / (a + b))"
    by (rule distrib_right [symmetric])
  also have "\<dots> = W"
    using t by simp
  finally show "alpha (updatePosterior d W r p) + beta (updatePosterior d W r p) = W"
    by (simp add: u)
qed

lemma posteriors_iff:
  "p \<in> posteriors e \<longleftrightarrow>
     (\<exists>m. globalWeights e m = Some p) \<or> (\<exists>t w m. tenantWeights e t = Some w \<and> w m = Some p)"
  by (auto simp: posteriors_def ran_def)

lemma engine_ok_iff:
  "engine_ok e \<longleftrightarrow>
     (\<forall>m p. globalWeights e m = Some p \<longrightarrow> posterior_ok (maxWindowSize e) p) \<and>
     (\<forall>t w m p. tenantWeights e t = Some w \<longrightarrow> w m = Some p \<longrightarrow>
        posterior_ok (maxWindowSize e) p)"
  by (auto simp: engine_ok_def posteriors_iff)

lemma recordFeedback_config:
  "maxWindowSize (recordFeedback m r t e) = maxWindowSize e"
  "dampeningFactor (recordFeedback m r t e) = dampeningFactor e"
  "modelIds (recordFeedback m r t e) = modelIds e"
  by (simp_all add: recordFeedback_def getTenantWeights_def setTenantWeights_def Let_def
      split: option.splits prod.splits)

lemma recordFeedback_global_ok:
  assumes ok: "engine_ok e" and W: "2 \<le> maxWindowSize e" and d: "0 \<le> dampeningFactor e"
    and r: "0 \<le> r" "r \<le> 1" and t: "no_tenant t"
  shows "engine_ok (recordFeedback m r t e)"
proof (cases "globalWeights e m")
  case None
  with t ok show ?thesis
    by (simp add: recordFeedback_def getTenantWeights_def)
next
  case (Some p)
  with ok have "posterior_ok (maxWindowSize e) p"
    by (auto simp: engine_ok_iff)
  then have "posterior_ok (maxWindowSize e)
      (updatePosterior (dampeningFactor e) (maxWindowSize e) r p)"
    using W d r by (intro updatePosterior_ok) (simp_all add: posterior_ok_def)
  moreover have "recordFeedback m r t e =
      e\<lparr>globalWeights := (globalWeights e)
          (m \<mapsto> updatePosterior (dampeningFactor e) (maxWindowSize e) r p)\<rparr>"
    using t Some by (simp add: recordFeedback_def getTenantWeights_def setTenantWeights_def)
  ultimately show ?thesis
    using ok by (auto simp: engine_ok_iff split: if_splits)
qed

lemma recordFeedback_tenant_ok:
  assumes ok: "engine_ok e" and W: "2 \<le> maxWindowSize e" and d: "0 \<le> dampeningFactor e"
    and r: "0 \<le> r" "r \<le> 1" and t: "\<not> no_tenant t"
  shows "engine_ok (recordFeedback m r t e)"
proof -
  define w where "w = (case tenantWeights e (the t) of
      None \<Rightarrow> initWeights (modelIds e) | Some w' \<Rightarrow> w')"
  define e1 where "e1 = e\<lparr>tenantWeights := (tenantWeights e)(the t \<mapsto> w)\<rparr>"
  have g: "getTenantWeights t e = (w, e1)"
    using t by (cases "tenantWeights e (the t)")
      (auto simp: getTenantWeights_def w_def e1_def Let_def map_upd_triv)
  have wok: "posterior_ok (maxWindowSize e) q" if "w k = Some q" for k q
  proof (cases "tenantWeights e (the t)")
    case None
    with that W show ?thesis
      by (auto simp: w_def intro: initWeights_ok)
  next
    case (Some w')
    with that ok show ?thesis
      by (auto simp: w_def engine_ok_iff)
  qed
  have ok1: "engine_ok e1"
    using ok wok by (auto simp: engine_ok_iff e1_def split: if_splits)
  show ?thesis
  proof (cases "w m")
    case None
    with g ok1 show ?thesis
      by (simp add: recordFeedback_def)
  next
    case (Some p)
    from wok [OF Some] have "posterior_ok (maxWindowSize e)
        (updatePosterior (dampeningFactor e) (maxWindowSize e) r p)"
      using W d r by (intro updatePosterior_ok) (simp_all add: posterior_ok_def)
    moreover have "recordFeedback m r t e =
        e1\<lparr>tenantWeights := (tenantWeights e1)
            (the t \<mapsto> w(m \<mapsto> updatePosterior (dampeningFactor e) (maxWindowSize e) r p))\<rparr>"
      using t g Some by (simp add: recordFeedback_def setTenantWeights_def e1_def)
    ultimately show ?thesis
      using ok1 wok by (auto simp: engine_ok_iff e1_def split: if_splits)
  qed
qed

lemma recordFeedback_ok:
  assumes "engine_ok e" and "2 \<le> maxWindowSize e" and "0 \<le> dampeningFactor e"
    and "0 \<le> r" and "r \<le> 1"
  shows "engine_ok (recordFeedback m r t e)"
  using assms recordFeedback_global_ok recordFeedback_tenant_ok by blast

lemma recordAll_ok:
  assumes "engine_ok e" and "2 \<le> maxWindowSize e" and "0 \<le> dampeningFactor e"
    and "\<forall>c \<in> set calls. 0 \<le> fst (snd c) \<and> fst (snd c) \<le> 1"
  shows "engine_ok (recordAll calls e) \<and> maxWindowSize (recordAll calls e) = maxWindowSize e"
  using assms
proof (induction calls arbitrary: e)
  case Nil
  then show ?case by (simp add: recordAll_def)
next
  case (Cons c calls)
  obtain m r t where c: "c = (m, r, t)"
    by (cases c) auto
  let ?e = "recordFeedback m r t e"
  from Cons.prems c have "engine_ok ?e"
    by (intro recordFeedback_ok) auto
  moreover from Cons.prems have "2 \<le> maxWindowSize ?e" "0 \<le> dampeningFactor ?e"
    by (simp_all add: recordFeedback_config)
  moreover from Cons.prems have "\<forall>c \<in> set calls. 0 \<le> fst (snd c) \<and> fst (snd c) \<le> 1"
    by simp
  ultimately have "engine_ok (recordAll calls ?e) \<and>
      maxWindowSize (recordAll calls ?e) = maxWindowSize ?e"
    by (rule Cons.IH)
  then show ?case
    by (simp add: recordAll_def c recordFeedback_config)
qed

lemma new_RLEngine_ok:
  assumes "2 \<le> maxWindowSize (new_RLEngine ids options)"
  shows "engine_ok (new_RLEngine ids options)"
proof -
  have "globalWeights (new_RLEngine ids options) = initWeights ids"
    and "tenantWeights (new_RLEngine ids options) = Map.empty"
    by (simp_all add: new_RLEngine_def)
  with assms show ?thesis
    by (auto simp: engine_ok_iff intro: initWeights_ok)
qed

text \<open>
  C5. Start from a new engine (every posterior at the prior \<open>alpha = beta = 1\<close>) whose
  window size \<open>W\<close> is at least 2, the sum of the prior, and whose dampening factor is not
  negative; the defaults are \<open>W = 200\<close> and \<open>0.1\<close>. After any sequence of
  \<open>recordFeedback\<close> calls with rewards in \<open>[0, 1]\<close>, for any models and tenants, every
  posterior of the engine, global or of a tenant, has \<open>alpha > 0\<close>, \<open>beta > 0\<close> and
  \<open>alpha + beta \<le> W\<close>.
\<close>

theorem posteriors_positive_and_bounded:
  assumes "2 \<le> maxWindowSize (new_RLEngine ids options)"
    and "0 \<le> dampeningFactor (new_RLEngine ids options)"
    and "\<forall>c \<in> set calls. 0 \<le> fst (snd c) \<and> fst (snd c) \<le> 1"
    and "p \<in> posteriors (recordAll calls (new_RLEngine ids options))"
  shows "0 < alpha p \<and> 0 < beta p \<and>
    alpha p + beta p \<le> maxWindowSize (new_RLEngine ids options)"
proof -
  from new_RLEngine_ok [OF assms(1)] assms(1-3)
  have "engine_ok (recordAll calls (new_RLEngine ids options)) \<and>
      maxWindowSize (recordAll calls (new_RLEngine ids options))
        = maxWindowSize (new_RLEngine ids options)"
    by (rule recordAll_ok)
  with assms(4) show ?thesis
    by (auto simp: engine_ok_def posterior_ok_def)
qed

theorem posteriors_positive_and_bounded_witness:
  "maxWindowSize (new_RLEngine [''m1'', ''m2''] small_window_options) = 2 \<and>
   dampeningFactor (new_RLEngine [''m1'', ''m2''] small_window_options) = 1 / 10 \<and>
   globalWeights (recordAll two_calls (new_RLEngine [''m1'', ''m2''] small_window_options)) ''m1''
     = Some \<lparr>alpha = 22 / 21, beta = 20 / 21\<rparr> \<and>
   0 < alpha \<lparr>alpha = 22 / 21, beta = 20 / 21\<rparr> \<and>
   0 < beta \<lparr>alpha = 22 / 21, beta = 20 / 21\<rparr> \<and>
   alpha \<lparr>alpha = 22 / 21, beta = 20 / 21\<rparr> + beta \<lparr>alpha = 22 / 21, beta = 20 / 21\<rparr>
     \<le> maxWindowSize (new_RLEngine [''m1'', ''m2''] small_window_options)"
proof -
  let ?e = "new_RLEngine [''m1'', ''m2''] small_window_options"
  let ?p = "\<lparr>alpha = 22 / 21, beta = 20 / 21\<rparr>"
  have W: "maxWindowSize ?e = 2" and d: "dampeningFactor ?e = 1 / 10"
    by (simp_all add: new_RLEngine_def small_window_options_def or_else_def)
  have r: "\<forall>c \<in> set two_calls. 0 \<le> fst (snd c) \<and> fst (snd c) \<le> 1"
    by (simp add: two_calls_def)
  have g: "globalWeights (recordAll two_calls ?e) ''m1'' = Some ?p"
    by (simp add: recordAll_def two_calls_def recordFeedback_def getTenantWeights_def
        setTenantWeights_def no_tenant_def new_RLEngine_def small_window_options_def
        or_else_def initWeights_def updatePosterior_def Let_def)
  then have "?p \<in> posteriors (recordAll two_calls ?e)"
    unfolding posteriors_iff by blast
  with posteriors_positive_and_bounded [of "[''m1'', ''m2'']" small_window_options two_calls ?p]
    W d r
  have "0 < alpha ?p \<and> 0 < beta ?p \<and> alpha ?p + beta ?p \<le> maxWindowSize ?e"
    by simp
  with W d g show ?thesis by simp
qed

section \<open>Score and tier of the classifier\<close>

lemma min_ratio_unit: "0 \<le> x \<Longrightarrow> 0 < c \<Longrightarrow> unit_interval (min (x / c) 1)"
  by (simp add: unit_interval_def min_def)

lemma type_token_ratio_unit:
  "unit_interval (if length ws > 0
     then real (length (remdups (map g ws))) / real (length ws) else 0)"
proof (cases "length ws > 0")
  case True
  have "length (remdups (map g ws)) \<le> length ws"
    using length_remdups_leq [of "map g ws"] by simp
  with True show ?thesis
    by (simp add: unit_interval_def)
next
  case False
  then show ?thesis by (simp add: unit_interval_def)
qed

lemma avg_nonneg: "0 \<le> (if (n::nat) > 0 then real a / real n else 0)"
  by simp

text \<open>Each of the fifteen features lies in \<open>[0, 1]\<close>, whatever the prompt and whatever the
  string built-ins return on it.\<close>

lemma features_unit:
  "list_all unit_interval (featureArray (extractFeatures rt prompt))"
proof -
  let ?f = "extractFeatures rt prompt"
  have "unit_interval (charCount ?f)" "unit_interval (wordCount ?f)"
    "unit_interval (sentenceCount ?f)" "unit_interval (questionDepth ?f)"
    "unit_interval (structuralComplexity ?f)" "unit_interval (techDensity ?f)"
    "unit_interval (reasoningDensity ?f)" "unit_interval (numericalDensity ?f)"
    by (simp_all add: extractFeatures_def Let_def min_ratio_unit)
  moreover have "unit_interval (avgWordLength ?f)" "unit_interval (avgSentenceLength ?f)"
    unfolding extractFeatures_def Let_def features.simps
    by (intro min_ratio_unit avg_nonneg; simp)+
  moreover have "unit_interval (typeTokenRatio ?f)"
    unfolding extractFeatures_def Let_def features.simps
    by (rule type_token_ratio_unit)
  moreover have "unit_interval (codeIndicator ?f)" "unit_interval (specificity ?f)"
    "unit_interval (hasPriorReference ?f)" "unit_interval (hasLargeNumbers ?f)"
    by (simp_all add: extractFeatures_def Let_def unit_interval_def)
  ultimately show ?thesis
    by (simp add: featureArray_def)
qed

lemma or_else_Some_0: "or_else (Some v) 0 = v"
  by (simp add: or_else_def)

lemma raw_score_is_weighted_sum:
  "fold (\<lambda>(key, weight) acc. acc + or_else (featureValue f key) 0 * weight)
     heuristic_weights 0 = weighted_sum f"
  by (simp add: heuristic_weights_def featureValue_def or_else_Some_0 weighted_sum_def)

lemma weighted_sum_unit:
  assumes "list_all unit_interval (featureArray f)"
  shows "0 \<le> weighted_sum f" and "weighted_sum f \<le> 1"
  using assms by (simp_all add: featureArray_def unit_interval_def weighted_sum_def)

lemma Math_round_percent:
  assumes "0 \<le> x" and "x \<le> 1"
  shows "0 \<le> Math_round (x * 100)" and "Math_round (x * 100) \<le> 100"
proof -
  from assms(1) have "0 \<le> x * 100 + 1 / 2" by simp
  then show "0 \<le> Math_round (x * 100)"
    by (simp add: Math_round_def)
  from assms(2) have "x * 100 + 1 / 2 < 101" by simp
  then have "\<lfloor>x * 100 + 1 / 2\<rfloor> < 101"
    by (simp add: floor_less_iff)
  then show "Math_round (x * 100) \<le> 100"
    by (simp add: Math_round_def)
qed

lemma spec_tier_in_TIERS: "spec_tier s \<in> set TIERS"
  by (simp add: spec_tier_def TIERS_def)

lemma heuristicClassify_eq:
  assumes "list_all unit_interval (featureArray f)"
  shows "heuristicClassify f =
    \<lparr>r_tier = Some (spec_tier (spec_score f)), r_score = Some (real_of_int (spec_score f)),
     r_confidence = Some (65 / 100)\<rparr>"
proof -
  from weighted_sum_unit [OF assms] have "spec_score f \<le> 100"
    unfolding spec_score_def by (intro Math_round_percent)
  then have m: "min (Math_round (weighted_sum f * 100)) 100 = spec_score f"
    by (simp add: spec_score_def)
  show ?thesis
    unfolding heuristicClassify_def raw_score_is_weighted_sum Let_def m
    by (simp add: spec_tier_def TIERS_def)
qed

lemma argmaxFrom_bounds:
  assumes "unit_interval (snd best)" and "list_all unit_interval ps" and "fst best < i"
  shows "unit_interval (snd (argmaxFrom ps i best)) \<and> fst (argmaxFrom ps i best) < i + length ps"
  using assms by (induction ps i best rule: argmaxFrom.induct) auto

lemma onnxClassify_well_formed:
  assumes "onnx = Some run" and "run (featureArray f) = Some probs"
    and "length probs = 5" and "list_all unit_interval probs"
  shows "\<exists>c t s. onnxClassify onnx f = Some c \<and> r_tier c = Some t \<and> t \<in> set TIERS \<and>
    r_score c = Some s \<and> 0 \<le> s \<and> s \<le> 100"
proof -
  from assms(3) obtain p0 ps where p: "probs = p0 # ps" and n: "length ps = 4"
    by (cases probs) auto
  obtain maxIdx maxProb where a: "argmaxFrom ps 1 (0, p0) = (maxIdx, maxProb)"
    by (cases "argmaxFrom ps 1 (0, p0)") auto
  from assms(4) p have "unit_interval (snd (0 :: nat, p0))" "list_all unit_interval ps"
    by simp_all
  from argmaxFrom_bounds [OF this, of 1] a n
  have u: "unit_interval maxProb" and i: "maxIdx < 5"
    by simp_all
  from u have "0 \<le> Math_round (maxProb * 100)" "Math_round (maxProb * 100) \<le> 100"
    unfolding unit_interval_def by (simp_all add: Math_round_percent)
  moreover from i have l: "maxIdx < length TIERS"
    by (simp add: TIERS_def)
  moreover from l have "TIERS ! maxIdx \<in> set TIERS"
    by (rule nth_mem)
  ultimately show ?thesis
    using assms(1,2) p a by (simp add: onnxClassify_def)
qed

text \<open>
  C4. For every prompt, and whatever the string built-ins return on it, each of the fifteen
  features lies in \<open>[0, 1]\<close>. On the heuristic path (no session, or an inference that
  throws) \<open>classify\<close> returns the score \<open>round(100 * weighted sum)\<close>, which lies in
  \<open>[0, 100]\<close>, the tier that the thresholds 10, 25, 50 and 75 give this score, one of the
  five tiers, and the confidence 0.65, with method \<open>heuristic\<close>. On the learned path, when
  the session returns five probabilities in \<open>[0, 1]\<close>, the score lies in \<open>[0, 100]\<close> and the
  tier is one of the five.
\<close>

theorem classify_score_and_tier:
  fixes rt :: js_runtime and prompt :: jsstring
    and onnx :: "(real list \<Rightarrow> real list option) option"
  defines "f \<equiv> extractFeatures rt prompt"
  defines "r \<equiv> classify rt onnx prompt"
  shows "list_all unit_interval (featureArray f) \<and>
    (onnxClassify onnx f = None \<longrightarrow>
       r = \<lparr>c_tier = Some (spec_tier (spec_score f)),
            c_score = Some (real_of_int (spec_score f)),
            c_confidence = Some (65 / 100), c_features = f, c_method = ''heuristic''\<rparr> \<and>
       0 \<le> spec_score f \<and> spec_score f \<le> 100 \<and> spec_tier (spec_score f) \<in> set TIERS) \<and>
    (\<forall>run probs.
       onnx = Some run \<and> run (featureArray f) = Some probs \<and> length probs = 5 \<and>
       list_all unit_interval probs \<longrightarrow>
       c_method r = ''onnx'' \<and>
       (\<exists>t s. c_tier r = Some t \<and> t \<in> set TIERS \<and> c_score r = Some s \<and> 0 \<le> s \<and> s \<le> 100))"
proof -
  have u: "list_all unit_interval (featureArray f)"
    unfolding f_def by (rule features_unit)
  have h: "r = \<lparr>c_tier = Some (spec_tier (spec_score f)),
        c_score = Some (real_of_int (spec_score f)),
        c_confidence = Some (65 / 100), c_features = f, c_method = ''heuristic''\<rparr> \<and>
      0 \<le> spec_score f \<and> spec_score f \<le> 100 \<and> spec_tier (spec_score f) \<in> set TIERS"
    if "onnxClassify onnx f = None"
  proof -
    from that have "r = \<lparr>c_tier = r_tier (heuristicClassify f),
        c_score = r_score (heuristicClassify f),
        c_confidence = r_confidence (heuristicClassify f),
        c_features = f, c_method = ''heuristic''\<rparr>"
      by (simp add: r_def classify_def f_def [symmetric])
    moreover from weighted_sum_unit [OF u]
    have "0 \<le> spec_score f" "spec_score f \<le> 100"
      unfolding spec_score_def by (simp_all add: Math_round_percent)
    ultimately show ?thesis
      by (simp add: heuristicClassify_eq [OF u] spec_tier_in_TIERS)
  qed
  have o: "c_method r = ''onnx'' \<and>
      (\<exists>t s. c_tier r = Some t \<and> t \<in> set TIERS \<and> c_score r = Some s \<and> 0 \<le> s \<and> s \<le> 100)"
    if "onnx = Some run" "run (featureArray f) = Some probs" "length probs = 5"
      "list_all unit_interval probs" for run probs
  proof -
    from onnxClassify_well_formed [OF that] obtain c t s
      where c: "onnxClassify onnx f = Some c" "r_tier c = Some t" "t \<in> set TIERS"
        "r_score c = Some s" "0 \<le> s" "s \<le> 100"
      by blast
    then show ?thesis
      by (simp add: r_def classify_def f_def [symmetric])
  qed
  from u h o show ?thesis
    by blast
qed

lemma js_includes_longer: "length s < length t \<Longrightarrow> \<not> js_includes s t"
  by (auto simp: js_includes_def)

lemma hi_runtime_simps:
  "re_split hi_runtime r s = [s]" "re_match hi_runtime r s = []"
  "re_test hi_runtime r s = False" "toLowerCase hi_runtime [72, 105] = [104, 105]"
  by (simp_all add: hi_runtime_def)

lemma hi_features:
  "extractFeatures hi_runtime (js ''Hi'') =
     \<lparr>charCount = 2 / 5000, wordCount = 1 / 1000, sentenceCount = 1 / 50,
      avgWordLength = 2 / 12, avgSentenceLength = 1 / 40, typeTokenRatio = 1,
      codeIndicator = 0, questionDepth = 0, structuralComplexity = 0, techDensity = 0,
      reasoningDensity = 0, specificity = 0, hasPriorReference = 0, numericalDensity = 0,
      hasLargeNumbers = 0\<rparr>"
proof -
  have a: "js ''Hi'' = [72, 105]"
    by (simp add: js_def)
  have c: "filter (\<lambda>t. js_includes [104, 105] (js t)) technicalTerms = []"
    by (simp add: technicalTerms_def js_includes_longer js_def)
  have d: "filter (\<lambda>t. js_includes [104, 105] (js t)) reasoningKeywords = []"
    by (simp add: reasoningKeywords_def js_includes_longer js_def)
  have e: "js_trim [72, 105] = [72, 105]"
    by (simp add: js_trim_def js_whitespace_def)
  show ?thesis
    unfolding extractFeatures_def a
    by (simp add: Let_def hi_runtime_simps c d e)
qed

theorem classify_score_and_tier_witness:
  "onnxClassify None (extractFeatures hi_runtime (js ''Hi'')) = None \<and>
   spec_score (extractFeatures hi_runtime (js ''Hi'')) = 4 \<and>
   classify hi_runtime None (js ''Hi'') =
     \<lparr>c_tier = Some ''trivial'', c_score = Some 4, c_confidence = Some (65 / 100),
      c_features = extractFeatures hi_runtime (js ''Hi''), c_method = ''heuristic''\<rparr> \<and>
   c_method (classify hi_runtime moderate_session (js ''Hi'')) = ''onnx'' \<and>
   c_tier (classify hi_runtime moderate_session (js ''Hi'')) = Some ''moderate'' \<and>
   c_score (classify hi_runtime moderate_session (js ''Hi'')) = Some 60"
proof -
  let ?f = "extractFeatures hi_runtime (js ''Hi'')"
  have n: "onnxClassify None ?f = None"
    by (simp add: onnxClassify_def)
  have s: "spec_score ?f = 4"
    unfolding hi_features by (simp add: spec_score_def weighted_sum_def Math_round_def)
  note T = classify_score_and_tier [of hi_runtime "js ''Hi''"]
  from T [of None] n
  have "classify hi_runtime None (js ''Hi'') =
      \<lparr>c_tier = Some (spec_tier (spec_score ?f)), c_score = Some (real_of_int (spec_score ?f)),
       c_confidence = Some (65 / 100), c_features = ?f, c_method = ''heuristic''\<rparr>"
    by blast
  then have 1: "classify hi_runtime None (js ''Hi'') =
      \<lparr>c_tier = Some ''trivial'', c_score = Some 4, c_confidence = Some (65 / 100),
       c_features = ?f, c_method = ''heuristic''\<rparr>"
    by (simp add: s spec_tier_def)
  have p: "list_all unit_interval [1 / 10, 1 / 10, 6 / 10, 1 / 10, 1 / 10 :: real]"
    by (simp add: unit_interval_def)
  from T [of moderate_session] p
  have 2: "c_method (classify hi_runtime moderate_session (js ''Hi'')) = ''onnx''"
    by (simp add: moderate_session_def)
  have 3: "c_tier (classify hi_runtime moderate_session (js ''Hi'')) = Some ''moderate''"
    "c_score (classify hi_runtime moderate_session (js ''Hi'')) = Some 60"
    by (simp_all add: classify_def onnxClassify_def moderate_session_def TIERS_def
        Math_round_def)
  from n s 1 2 3 show ?thesis
    by simp
qed

section \<open>Client disconnect during streaming\<close>

lemma deliver_destroyed:
  assumes "destroyed s" and "aborted s"
  shows "destroyed (deliver ev s) \<and> aborted (deliver ev s) \<and>
    written (deliver ev s) = written s \<and> log_rows (deliver ev s) = log_rows s"
  using assms by (cases ev) (auto simp: deliver_def Let_def split: option.splits)

text \<open>Once the stream has been destroyed on a disconnect, nothing more is written to the
  client, and no log row is emitted either, whatever happens afterwards.\<close>

lemma run_stream_destroyed:
  assumes "destroyed s" and "aborted s"
  shows "written (run_stream evs s) = written s \<and> log_rows (run_stream evs s) = log_rows s"
  using assms
proof (induction evs arbitrary: s)
  case Nil
  then show ?case by (simp add: run_stream_def)
next
  case (Cons ev evs)
  from deliver_destroyed [OF Cons.prems, of ev]
  have d: "destroyed (deliver ev s)" "aborted (deliver ev s)"
    and k: "written (deliver ev s) = written s" "log_rows (deliver ev s) = log_rows s"
    by simp_all
  from Cons.IH [OF d] k show ?case
    by (simp add: run_stream_def)
qed

lemma disconnect_while_streaming:
  assumes "providerStream s \<noteq> None"
  shows "destroyed (deliver (ClientClose t) s) \<and> aborted (deliver (ClientClose t) s) \<and>
    written (run_stream (ClientClose t # evs) s) = written s \<and>
    log_rows (run_stream (ClientClose t # evs) s) = log_rows s"
proof -
  from assms have d: "destroyed (deliver (ClientClose t) s)" "aborted (deliver (ClientClose t) s)"
    and k: "written (deliver (ClientClose t) s) = written s"
      "log_rows (deliver (ClientClose t) s) = log_rows s"
    by (simp_all add: deliver_def Let_def)
  from run_stream_destroyed [OF d, of evs] d k show ?thesis
    by (simp add: run_stream_def)
qed

text \<open>
  C7. The claim is that after a disconnect during streaming the stream is destroyed,
  nothing more is written, and one log row is still emitted, with the latency at the
  disconnect. The first two hold. The log row is emitted only by the \<open>end\<close> listener, and
  a destroyed stream never ends: on the trace with a disconnect at time 500 no row is
  emitted at all. Were the \<open>end\<close> listener to run all the same (the callbacks applied
  without the stream's gating), the row would carry the latency of the end, 900, not that
  of the disconnect.
\<close>

theorem disconnect_emits_no_log_row:
  "destroyed (run_stream disconnect_trace (new_streaming 0)) \<and>
   written (run_stream disconnect_trace (new_streaming 0)) = [''a''] \<and>
   log_rows (run_stream disconnect_trace (new_streaming 0)) = [] \<and>
   log_rows (fold handle disconnect_trace (new_streaming 0))
     = [\<lparr>row_latencyMs = 900, row_status = 200\<rparr>]"
  by (simp add: run_stream_def deliver_def disconnect_trace_def new_streaming_def Let_def)

end
